theory Spec2Isabelle
  imports Main "HOL-Library.AList"
begin

section \<open>The interval lattice (class \<open>range\<close>)\<close>

text \<open>
  The fields \<open>safelane\<close> (lower bound) and \<open>offlane\<close> (upper bound) are C \<open>int\<close>s; they are
  modelled as HOL integers, and every conversion of an \<open>int64_t\<close> to \<open>int\<close> that the source
  performs when it calls the constructor \<open>range(int, int)\<close> is written out as \<open>to_int\<close>
  (two's complement wrap to 32 bits).
\<close>

definition INT_MAX :: int where
  "INT_MAX = 2147483647"

definition INT_MIN :: int where
  "INT_MIN = - 2147483648"

definition to_int :: "int \<Rightarrow> int" where
  "to_int v = (v + 2147483648) mod 4294967296 - 2147483648"

record range =
  safelane :: int
  offlane :: int

definition mk_range :: "int \<Rightarrow> int \<Rightarrow> range" where
  "mk_range safe off = \<lparr>safelane = to_int safe, offlane = to_int off\<rparr>"

definition get_low :: "range \<Rightarrow> int" where
  "get_low r = safelane r"

definition get_high :: "range \<Rightarrow> int" where
  "get_high r = offlane r"

definition r_top :: range where
  "r_top = mk_range INT_MIN INT_MAX"

definition r_bot :: range where
  "r_bot = mk_range INT_MAX INT_MIN"

definition clamp_i32 :: "int \<Rightarrow> int" where
  "clamp_i32 val = (if val > INT_MAX then INT_MAX else if val < INT_MIN then INT_MIN else val)"

definition range_add :: "range \<Rightarrow> range \<Rightarrow> range" where
  "range_add r1 r2 =
     (if r1 = r_bot \<or> r2 = r_bot then r_bot
      else let new_safe = clamp_i32 (safelane r1 + safelane r2);
               new_off = clamp_i32 (offlane r1 + offlane r2)
           in mk_range new_safe new_off)"

definition range_sub :: "range \<Rightarrow> range \<Rightarrow> range" where
  "range_sub r1 r2 =
     (if r1 = r_bot \<or> r2 = r_bot then r_bot
      else let new_safe = clamp_i32 (safelane r1 - offlane r2);
               new_off = clamp_i32 (offlane r1 - safelane r2)
           in mk_range new_safe new_off)"

definition range_mul :: "range \<Rightarrow> range \<Rightarrow> range" where
  "range_mul r1 r2 =
     (if r1 = r_bot \<or> r2 = r_bot then r_bot
      else let t1 = clamp_i32 (safelane r1 * safelane r2);
               t2 = clamp_i32 (safelane r1 * offlane r2);
               t3 = clamp_i32 (offlane r1 * safelane r2);
               t4 = clamp_i32 (offlane r1 * offlane r2);
               min_val = min (min (min t1 t2) t3) t4;
               max_val = max (max (max t1 t2) t3) t4
           in mk_range min_val max_val)"

definition range_join :: "range \<Rightarrow> range \<Rightarrow> range" where
  "range_join r1 r2 =
     (if r1 = r_bot then r2
      else if r2 = r_bot then r1
      else let new_safe = min (safelane r1) (safelane r2);
               new_off = max (offlane r1) (offlane r2)
           in mk_range new_safe new_off)"

definition range_intersect :: "range \<Rightarrow> range \<Rightarrow> range" where
  "range_intersect r1 r2 =
     (if r1 = r_bot \<or> r2 = r_bot then r_bot
      else let new_safe = max (safelane r1) (safelane r2);
               new_off = min (offlane r1) (offlane r2)
           in if new_safe > new_off then r_bot else mk_range new_safe new_off)"

text \<open>The comparison \<open>operator<\<close> of the class: Bottom first, then lexicographic.\<close>

definition range_less :: "range \<Rightarrow> range \<Rightarrow> bool" where
  "range_less r1 r2 =
     (if r1 = r_bot then True
      else if r2 = r_bot then False
      else safelane r1 < safelane r2 \<or> (safelane r1 = safelane r2 \<and> offlane r1 < offlane r2))"

subsection \<open>What an interval denotes\<close>

text \<open>
  A value of the class is an interval of the 32-bit domain when both fields are \<open>int\<close>s
  (\<open>is_i32\<close>) and it is either Bottom or has \<open>lo \<le> hi\<close> (the invariant of the data model).
  \<open>contains r x\<close> says that the integer \<open>x\<close> lies in the closed range; Bottom, stored as
  \<open>(INT_MAX, INT_MIN)\<close>, contains nothing. \<open>range_leq\<close> is inclusion of intervals, the order
  of the lattice.
\<close>

definition is_i32 :: "int \<Rightarrow> bool" where
  "is_i32 v = (INT_MIN \<le> v \<and> v \<le> INT_MAX)"

definition wf_range :: "range \<Rightarrow> bool" where
  "wf_range r = (is_i32 (safelane r) \<and> is_i32 (offlane r) \<and> (r = r_bot \<or> safelane r \<le> offlane r))"

definition contains :: "range \<Rightarrow> int \<Rightarrow> bool" where
  "contains r x = (get_low r \<le> x \<and> x \<le> get_high r)"

definition range_leq :: "range \<Rightarrow> range \<Rightarrow> bool" where
  "range_leq r1 r2 = (r1 = r_bot \<or> (r2 \<noteq> r_bot \<and> get_low r2 \<le> get_low r1 \<and> get_high r1 \<le> get_high r2))"

section \<open>The IR values the analysis inspects\<close>

text \<open>
  An LLVM \<open>Value*\<close> is modelled as the tree of the value and its operands. Every value
  other than an integer constant carries its name, so that two trees are equal exactly
  when the pointers are; where the type of a value is not fixed by its kind, the flag says
  whether the type is a pointer type (\<open>getType()->isPointerTy()\<close>). The incoming values of
  a phi node are kept in a table of the function, since they may refer back to the phi.
\<close>

datatype opcode = Add | Sub | Mul | And | OtherOp

datatype predicate =
    ICMP_EQ | ICMP_NE | ICMP_UGT | ICMP_UGE | ICMP_ULT | ICMP_ULE
  | ICMP_SGT | ICMP_SGE | ICMP_SLT | ICMP_SLE

datatype alloc_ty = ArrayTy nat | NonArrayTy

datatype val =
    ConstantInt int
  | ConstantExpr nat bool
  | Argument nat bool
  | PHINode nat bool
  | AllocaInst nat alloc_ty
  | LoadInst nat bool val
  | StoreInst nat val val
  | GetElementPtrInst nat val "val list"
  | CallInst nat bool "nat option" "val list"
  | BinaryOperator nat opcode val val
  | SelectInst nat bool val val val
  | CastInst nat bool val
  | ICmpInst nat predicate val val
  | OtherValue nat bool

fun isPointerTy :: "val \<Rightarrow> bool" where
  "isPointerTy (ConstantInt c) = False"
| "isPointerTy (ConstantExpr n p) = p"
| "isPointerTy (Argument n p) = p"
| "isPointerTy (PHINode n p) = p"
| "isPointerTy (AllocaInst n ty) = True"
| "isPointerTy (LoadInst n p ptr) = p"
| "isPointerTy (StoreInst n v ptr) = False"
| "isPointerTy (GetElementPtrInst n b idxs) = True"
| "isPointerTy (CallInst n p callee args) = p"
| "isPointerTy (BinaryOperator n opc a b) = False"
| "isPointerTy (SelectInst n p c a b) = p"
| "isPointerTy (CastInst n p v) = p"
| "isPointerTy (ICmpInst n pr a b) = False"
| "isPointerTy (OtherValue n p) = p"

text \<open>\<open>CmpInst::getSwappedPredicate\<close> and \<open>CmpInst::getInversePredicate\<close>.\<close>

fun getSwappedPredicate :: "predicate \<Rightarrow> predicate" where
  "getSwappedPredicate ICMP_EQ = ICMP_EQ"
| "getSwappedPredicate ICMP_NE = ICMP_NE"
| "getSwappedPredicate ICMP_UGT = ICMP_ULT"
| "getSwappedPredicate ICMP_UGE = ICMP_ULE"
| "getSwappedPredicate ICMP_ULT = ICMP_UGT"
| "getSwappedPredicate ICMP_ULE = ICMP_UGE"
| "getSwappedPredicate ICMP_SGT = ICMP_SLT"
| "getSwappedPredicate ICMP_SGE = ICMP_SLE"
| "getSwappedPredicate ICMP_SLT = ICMP_SGT"
| "getSwappedPredicate ICMP_SLE = ICMP_SGE"

fun getInversePredicate :: "predicate \<Rightarrow> predicate" where
  "getInversePredicate ICMP_EQ = ICMP_NE"
| "getInversePredicate ICMP_NE = ICMP_EQ"
| "getInversePredicate ICMP_UGT = ICMP_ULE"
| "getInversePredicate ICMP_UGE = ICMP_ULT"
| "getInversePredicate ICMP_ULT = ICMP_UGE"
| "getInversePredicate ICMP_ULE = ICMP_UGT"
| "getInversePredicate ICMP_SGT = ICMP_SLE"
| "getInversePredicate ICMP_SGE = ICMP_SLT"
| "getInversePredicate ICMP_SLT = ICMP_SGE"
| "getInversePredicate ICMP_SLE = ICMP_SGT"

section \<open>The array abstract store and the block state\<close>

text \<open>
  \<open>elem_map\<close> is a \<open>std::map<int64_t, range>\<close>: the list of its entries in increasing key
  order, so that the \<open>!=\<close> of two maps is the inequality of the lists. \<open>map_set\<close> is
  \<open>m[k] = v\<close>. The maps keyed by \<open>Value*\<close> are association lists with one entry per key
  (\<open>AList.update\<close>); the source only looks keys up in them, walks them and takes their size.
\<close>

fun map_set :: "int \<Rightarrow> 'v \<Rightarrow> (int \<times> 'v) list \<Rightarrow> (int \<times> 'v) list" where
  "map_set k v [] = [(k, v)]"
| "map_set k v ((k', v') # m) =
     (if k < k' then (k, v) # (k', v') # m
      else if k = k' then (k, v) # m
      else (k', v') # map_set k v m)"

record arr_state =
  elem_map :: "(int \<times> range) list"
  default_r :: range

record block_state =
  val_ranges :: "(val \<times> range) list"
  arr_states :: "(val \<times> arr_state) list"
  reachable :: bool

text \<open>The default constructors \<open>arr_state()\<close> and \<open>block_state()\<close>.\<close>

definition new_arr_state :: arr_state where
  "new_arr_state = \<lparr>elem_map = [], default_r = mk_range 0 0\<rparr>"

definition new_block_state :: block_state where
  "new_block_state = \<lparr>val_ranges = [], arr_states = [], reachable = False\<rparr>"

definition get_base_ptr :: "val \<Rightarrow> val" where
  "get_base_ptr ptr = (case ptr of GetElementPtrInst n b idxs \<Rightarrow> b | _ \<Rightarrow> ptr)"

text \<open>
  The index the source reads with \<open>idx_begin()\<close>, \<open>++idx_it\<close> from a
  \<open>GetElementPtrInst\<close> with \<open>getNumIndices() >= 2\<close>.
\<close>

definition second_index :: "val \<Rightarrow> val option" where
  "second_index ptr =
     (case ptr of
        GetElementPtrInst n b idxs \<Rightarrow> (case idxs of i0 # idx # rest \<Rightarrow> Some idx | _ \<Rightarrow> None)
      | _ \<Rightarrow> None)"

definition is_singleton :: "range \<Rightarrow> bool" where
  "is_singleton idx_r = (get_low idx_r = get_high idx_r \<and> idx_r \<noteq> r_bot)"

definition lookup_or_top :: "val \<Rightarrow> block_state \<Rightarrow> range" where
  "lookup_or_top v state = (case map_of (val_ranges state) v of Some r \<Rightarrow> r | None \<Rightarrow> r_top)"

definition slot_or_default :: "arr_state \<Rightarrow> range \<Rightarrow> range" where
  "slot_or_default arr idx_r =
     (if is_singleton idx_r
      then (case map_of (elem_map arr) (get_low idx_r) of Some r \<Rightarrow> r | None \<Rightarrow> default_r arr)
      else default_r arr)"

section \<open>The value evaluator\<close>

function get_range :: "val \<Rightarrow> block_state \<Rightarrow> range"
  and load_elem :: "arr_state \<Rightarrow> val \<Rightarrow> block_state \<Rightarrow> range" where
  "get_range v state =
     (if \<not> reachable state then r_bot
      else case v of
        ConstantInt c \<Rightarrow> mk_range c c
      | ConstantExpr n p \<Rightarrow> r_top
      | BinaryOperator n opc op0 op1 \<Rightarrow>
          (case map_of (val_ranges state) v of
             Some r \<Rightarrow> r
           | None \<Rightarrow>
               (case opc of
                  Add \<Rightarrow> range_add (get_range op0 state) (get_range op1 state)
                | Sub \<Rightarrow> range_sub (get_range op0 state) (get_range op1 state)
                | Mul \<Rightarrow> range_mul (get_range op0 state) (get_range op1 state)
                | _ \<Rightarrow> r_top))
      | LoadInst n p ptr \<Rightarrow>
          (case (if ptr \<noteq> get_base_ptr ptr then map_of (arr_states state) (get_base_ptr ptr) else None,
                 second_index ptr) of
             (Some arr, Some idx) \<Rightarrow> load_elem arr idx state
           | _ \<Rightarrow>
               (case map_of (val_ranges state) (get_base_ptr ptr) of
                  Some r \<Rightarrow> r
                | None \<Rightarrow> lookup_or_top v state))
      | _ \<Rightarrow> lookup_or_top v state)"
| "load_elem arr idx state =
     (case idx of
        ConstantInt i \<Rightarrow>
          (case map_of (elem_map arr) i of Some r \<Rightarrow> r | None \<Rightarrow> default_r arr)
      | ConstantExpr n p \<Rightarrow> default_r arr
      | BinaryOperator n opc op0 op1 \<Rightarrow> slot_or_default arr (get_range idx state)
      | _ \<Rightarrow>
          (case map_of (val_ranges state) idx of
             Some idx_r \<Rightarrow> slot_or_default arr idx_r
           | None \<Rightarrow> default_r arr))"
  by pat_completeness auto

termination
  by (relation "measure (\<lambda>x. case x of Inl (v, s) \<Rightarrow> 2 * size v + 1 | Inr (arr, idx, s) \<Rightarrow> 2 * size idx + 2)")
     (auto simp: second_index_def split: val.splits list.splits if_splits)

section \<open>Operations of the array abstract store\<close>

text \<open>
  The two updates \<open>store_elem\<close> chooses between: \<open>elem_map[i] = val\<close>, and
  \<open>default_r = range::join(default_r, val); elem_map.clear()\<close>.
\<close>

definition set_slot :: "arr_state \<Rightarrow> int \<Rightarrow> range \<Rightarrow> arr_state" where
  "set_slot arr i val = arr\<lparr>elem_map := map_set i val (elem_map arr)\<rparr>"

definition join_default_and_clear :: "arr_state \<Rightarrow> range \<Rightarrow> arr_state" where
  "join_default_and_clear arr val = arr\<lparr>default_r := range_join (default_r arr) val, elem_map := []\<rparr>"

definition store_elem :: "arr_state \<Rightarrow> val \<Rightarrow> range \<Rightarrow> block_state \<Rightarrow> arr_state" where
  "store_elem arr idx val state =
     (case idx of
        ConstantInt i \<Rightarrow> set_slot arr i val
      | ConstantExpr n p \<Rightarrow> join_default_and_clear arr val
      | BinaryOperator n opc op0 op1 \<Rightarrow>
          (let idx_r = get_range idx state
           in if is_singleton idx_r then set_slot arr (get_low idx_r) val
              else join_default_and_clear arr val)
      | _ \<Rightarrow>
          (case map_of (val_ranges state) idx of
             Some idx_r \<Rightarrow>
               if is_singleton idx_r then set_slot arr (get_low idx_r) val
               else join_default_and_clear arr val
           | None \<Rightarrow> join_default_and_clear arr val))"

definition join_arr :: "arr_state \<Rightarrow> arr_state \<Rightarrow> arr_state" where
  "join_arr s1 s2 =
     (let result = new_arr_state\<lparr>default_r := range_join (default_r s1) (default_r s2)\<rparr>;
          result = foldl (\<lambda>res (idx, r1).
                      case map_of (elem_map s2) idx of
                        Some r2 \<Rightarrow> set_slot res idx (range_join r1 r2)
                      | None \<Rightarrow> set_slot res idx (range_join r1 (default_r s2)))
                    result (elem_map s1)
      in foldl (\<lambda>res (idx, r2).
                  if map_of (elem_map s1) idx = None
                  then set_slot res idx (range_join (default_r s1) r2) else res)
               result (elem_map s2))"

section \<open>Operations of the block state\<close>

text \<open>\<open>join_state\<close> returns the \<open>changed\<close> flag and the updated state.\<close>

definition join_state :: "block_state \<Rightarrow> block_state \<Rightarrow> bool \<times> block_state" where
  "join_state this other =
     (if \<not> reachable other then (False, this)
      else if \<not> reachable this
      then (True, this\<lparr>reachable := True, val_ranges := val_ranges other, arr_states := arr_states other\<rparr>)
      else
        let (changed, this) =
              foldl (\<lambda>(changed, this) (val, other_r).
                       if other_r = r_bot then (changed, this)
                       else
                         let it = map_of (val_ranges this) val;
                             old_r = (case it of Some r \<Rightarrow> r | None \<Rightarrow> r_bot);
                             new_r = range_join old_r other_r
                         in if it = None \<or> old_r \<noteq> new_r
                            then (True, this\<lparr>val_ranges := AList.update val new_r (val_ranges this)\<rparr>)
                            else (changed, this))
                    (False, this) (val_ranges other)
        in foldl (\<lambda>(changed, this) (alloc, other_arr).
                    let it = map_of (arr_states this) alloc;
                        new_arr = (case it of Some a \<Rightarrow> join_arr a other_arr | None \<Rightarrow> other_arr);
                        needs_update =
                          (case it of
                             None \<Rightarrow> True
                           | Some a \<Rightarrow> default_r a \<noteq> default_r new_arr \<or> elem_map a \<noteq> elem_map new_arr)
                    in if needs_update
                       then (True, this\<lparr>arr_states := AList.update alloc new_arr (arr_states this)\<rparr>)
                       else (changed, this))
                 (changed, this) (arr_states other))"

text \<open>\<open>block_state::operator!=\<close>; \<open>size()\<close> of a map is the length of its entry list.\<close>

definition block_state_neq :: "block_state \<Rightarrow> block_state \<Rightarrow> bool" where
  "block_state_neq this other =
     (if reachable this \<noteq> reachable other then True
      else if \<not> reachable this \<and> \<not> reachable other then False
      else if length (val_ranges this) \<noteq> length (val_ranges other) then True
      else if length (arr_states this) \<noteq> length (arr_states other) then True
      else if list_ex (\<lambda>(val, r).
                 case map_of (val_ranges other) val of
                   None \<Rightarrow> True
                 | Some r' \<Rightarrow> r' \<noteq> r) (val_ranges this) then True
      else if list_ex (\<lambda>(alloc, arr).
                 case map_of (arr_states other) alloc of
                   None \<Rightarrow> True
                 | Some arr' \<Rightarrow>
                     default_r arr' \<noteq> default_r arr \<or>
                     length (elem_map arr') \<noteq> length (elem_map arr)) (arr_states this) then True
      else False)"

section \<open>The per-instruction transfer function\<close>

text \<open>
  \<open>std::map<BasicBlock*, block_state>\<close>, read with \<open>operator[]\<close>: a block with no entry has
  the default-constructed state.
\<close>

type_synonym state_map = "(nat \<times> block_state) list"

definition state_of :: "state_map \<Rightarrow> nat \<Rightarrow> block_state" where
  "state_of m bb = (case map_of m bb of Some s \<Rightarrow> s | None \<Rightarrow> new_block_state)"

fun get_pred_range :: "val \<Rightarrow> nat \<Rightarrow> state_map \<Rightarrow> range" where
  "get_pred_range v pred_bb out_states =
     (if \<not> reachable (state_of out_states pred_bb) then r_bot
      else case v of
        ConstantInt c \<Rightarrow> mk_range c c
      | ConstantExpr n p \<Rightarrow> r_top
      | BinaryOperator n opc op0 op1 \<Rightarrow>
          (case map_of (val_ranges (state_of out_states pred_bb)) v of
             Some r \<Rightarrow> r
           | None \<Rightarrow>
               (case opc of
                  Add \<Rightarrow> range_add (get_pred_range op0 pred_bb out_states) (get_pred_range op1 pred_bb out_states)
                | Sub \<Rightarrow> range_sub (get_pred_range op0 pred_bb out_states) (get_pred_range op1 pred_bb out_states)
                | Mul \<Rightarrow> range_mul (get_pred_range op0 pred_bb out_states) (get_pred_range op1 pred_bb out_states)
                | _ \<Rightarrow> r_top))
      | _ \<Rightarrow>
          (case map_of (val_ranges (state_of out_states pred_bb)) v of
             Some r \<Rightarrow> r
           | None \<Rightarrow>
               (case v of
                  LoadInst n p ptr \<Rightarrow>
                    (case (if ptr \<noteq> get_base_ptr ptr
                           then map_of (arr_states (state_of out_states pred_bb)) (get_base_ptr ptr)
                           else None,
                           second_index ptr) of
                       (Some arr, Some idx) \<Rightarrow> load_elem arr idx (state_of out_states pred_bb)
                     | _ \<Rightarrow>
                         (case map_of (val_ranges (state_of out_states pred_bb)) (get_base_ptr ptr) of
                            Some r \<Rightarrow> r
                          | None \<Rightarrow> r_top))
                | _ \<Rightarrow> r_top)))"

text \<open>The incoming (value, block) pairs of the phi nodes of a function, by phi name.\<close>

type_synonym phi_table = "(nat \<times> (val \<times> nat) list) list"

definition incoming :: "phi_table \<Rightarrow> nat \<Rightarrow> (val \<times> nat) list" where
  "incoming phis n = (case map_of phis n of Some l \<Rightarrow> l | None \<Rightarrow> [])"

definition set_val :: "block_state \<Rightarrow> val \<Rightarrow> range \<Rightarrow> block_state" where
  "set_val st v r = st\<lparr>val_ranges := AList.update v r (val_ranges st)\<rparr>"

definition set_arr :: "block_state \<Rightarrow> val \<Rightarrow> arr_state \<Rightarrow> block_state" where
  "set_arr st v a = st\<lparr>arr_states := AList.update v a (arr_states st)\<rparr>"

text \<open>The body of the loop over the arguments of a call with a known callee.\<close>

definition clobber_arg :: "block_state \<Rightarrow> val \<Rightarrow> block_state" where
  "clobber_arg current_state arg =
     (if isPointerTy arg
      then let base = get_base_ptr arg
           in (case map_of (arr_states current_state) base of
                 Some a \<Rightarrow> set_arr current_state base (a\<lparr>default_r := r_top, elem_map := []\<rparr>)
               | None \<Rightarrow> set_val current_state base r_top)
      else current_state)"

definition transfer_inst :: "phi_table \<Rightarrow> val \<Rightarrow> block_state \<Rightarrow> state_map \<Rightarrow> block_state" where
  "transfer_inst phis inst current_state out_states =
     (case inst of
        PHINode n p \<Rightarrow>
          (let merged = foldl (\<lambda>merged (v, pred_bb).
                           if reachable (state_of out_states pred_bb)
                           then range_join merged (get_pred_range v pred_bb out_states)
                           else merged) r_bot (incoming phis n)
           in set_val current_state inst merged)
      | AllocaInst n ty \<Rightarrow>
          (case ty of
             ArrayTy k \<Rightarrow> set_arr current_state inst (new_arr_state\<lparr>default_r := mk_range 0 0\<rparr>)
           | NonArrayTy \<Rightarrow> set_val current_state inst r_top)
      | LoadInst n p ptr \<Rightarrow>
          (case (if ptr \<noteq> get_base_ptr ptr
                 then map_of (arr_states current_state) (get_base_ptr ptr) else None) of
             Some arr \<Rightarrow>
               (case second_index ptr of
                  Some idx \<Rightarrow> set_val current_state inst (load_elem arr idx current_state)
                | None \<Rightarrow> current_state)
           | None \<Rightarrow> set_val current_state inst (get_range (get_base_ptr ptr) current_state))
      | StoreInst n val_op ptr_op \<Rightarrow>
          (let base = get_base_ptr ptr_op;
               val_r = get_range val_op current_state
           in case (if ptr_op \<noteq> base then map_of (arr_states current_state) base else None,
                    second_index ptr_op) of
                (Some arr, Some idx) \<Rightarrow>
                  set_arr current_state base (store_elem arr idx val_r current_state)
              | _ \<Rightarrow> set_val current_state base val_r)
      | CallInst n p callee args \<Rightarrow>
          (let current_state =
                 (case callee of
                    Some fn \<Rightarrow> foldl clobber_arg current_state args
                  | None \<Rightarrow> current_state)
           in set_val current_state inst r_top)
      | BinaryOperator n opc op0 op1 \<Rightarrow>
          (let r1 = get_range op0 current_state;
               r2 = get_range op1 current_state
           in (case opc of
                 Add \<Rightarrow> set_val current_state inst (range_add r1 r2)
               | Sub \<Rightarrow> set_val current_state inst (range_sub r1 r2)
               | Mul \<Rightarrow> set_val current_state inst (range_mul r1 r2)
               | _ \<Rightarrow> set_val current_state inst r_top))
      | SelectInst n p c v1 v2 \<Rightarrow>
          set_val current_state inst
            (range_join (get_range v1 current_state) (get_range v2 current_state))
      | CastInst n p op \<Rightarrow> set_val current_state inst (get_range op current_state)
      | _ \<Rightarrow> current_state)"

section \<open>The control-flow graph\<close>

text \<open>
  A basic block is its name, its instructions up to the terminator, the terminator, and the
  list \<open>predecessors(BB)\<close> walks: the blocks whose terminators use the block, once for each
  use and in the order of the block's use list. The terminator is an instruction of the
  block as well, of a kind \<open>transfer_inst\<close> has no case for. \<open>function_backedges\<close> is what
  \<open>FindFunctionBackedges\<close> returns for the function, \<open>fresh\<close> a name no value or block of
  the function has yet; the entry block is the first block.
\<close>

datatype terminator =
    Br nat
  | CondBr val nat nat
  | Switch val nat "(int \<times> nat) list"
  | Ret
  | OtherTerm "nat list"

record block =
  bb_name :: nat
  insts :: "val list"
  getTerminator :: terminator
  bb_preds :: "nat list"

record func =
  fname :: string
  fargs :: "val list"
  blocks :: "block list"
  phis :: phi_table
  function_backedges :: "(nat \<times> nat) list"
  fresh :: nat

fun successors :: "terminator \<Rightarrow> nat list" where
  "successors (Br b) = [b]"
| "successors (CondBr c t f) = [t, f]"
| "successors (Switch c d cases) = d # map snd cases"
| "successors Ret = []"
| "successors (OtherTerm bs) = bs"

definition block_named :: "func \<Rightarrow> nat \<Rightarrow> block option" where
  "block_named F bb = find (\<lambda>b. bb_name b = bb) (blocks F)"

definition predecessors :: "func \<Rightarrow> nat \<Rightarrow> nat list" where
  "predecessors F bb = (case block_named F bb of None \<Rightarrow> [] | Some b \<Rightarrow> bb_preds b)"

definition is_entry :: "func \<Rightarrow> nat \<Rightarrow> bool" where
  "is_entry F bb = (case blocks F of [] \<Rightarrow> False | b # bs \<Rightarrow> bb_name b = bb)"

section \<open>Refinement along an edge and widening\<close>

text \<open>
  The chain of pattern tests of \<open>refine_br\<close>: the variable, the constant and the predicate
  (swapped when the constant is on the left), or nothing when \<open>var\<close> or \<open>cint\<close> stays null.
\<close>

definition dyn_cast_ConstantInt :: "val \<Rightarrow> int option" where
  "dyn_cast_ConstantInt v = (case v of ConstantInt c \<Rightarrow> Some c | _ \<Rightarrow> None)"

definition dyn_cast_LoadInst :: "val \<Rightarrow> val option" where
  "dyn_cast_LoadInst v = (case v of LoadInst n p ptr \<Rightarrow> Some ptr | _ \<Rightarrow> None)"

definition isa_Argument :: "val \<Rightarrow> bool" where
  "isa_Argument v = (case v of Argument n p \<Rightarrow> True | _ \<Rightarrow> False)"

definition match_cmp ::
  "predicate \<Rightarrow> val \<Rightarrow> val \<Rightarrow> block_state \<Rightarrow> (val \<times> int \<times> predicate) option" where
  "match_cmp pred lhs rhs pred_state =
     (case dyn_cast_LoadInst lhs of
        Some ptr \<Rightarrow>
          (case dyn_cast_ConstantInt rhs of
             Some c \<Rightarrow> Some (get_base_ptr ptr, c, pred)
           | None \<Rightarrow> None)
      | None \<Rightarrow>
     (case dyn_cast_LoadInst rhs of
        Some ptr \<Rightarrow>
          (case dyn_cast_ConstantInt lhs of
             Some c \<Rightarrow> Some (get_base_ptr ptr, c, getSwappedPredicate pred)
           | None \<Rightarrow> None)
      | None \<Rightarrow>
     (if isa_Argument lhs
      then (case dyn_cast_ConstantInt rhs of Some c \<Rightarrow> Some (lhs, c, pred) | None \<Rightarrow> None)
      else if isa_Argument rhs
      then (case dyn_cast_ConstantInt lhs of
              Some c \<Rightarrow> Some (rhs, c, getSwappedPredicate pred)
            | None \<Rightarrow> None)
      else
     (case dyn_cast_ConstantInt rhs of
        Some c \<Rightarrow>
          (if map_of (val_ranges pred_state) lhs \<noteq> None then Some (lhs, c, pred) else None)
      | None \<Rightarrow>
     (case dyn_cast_ConstantInt lhs of
        Some c \<Rightarrow>
          (if map_of (val_ranges pred_state) rhs \<noteq> None
           then Some (rhs, c, getSwappedPredicate pred) else None)
      | None \<Rightarrow> None)))))"

text \<open>The \<open>switch (pred)\<close> of \<open>refine_br\<close>, which computes \<open>filter_r\<close>.\<close>

definition filter_range :: "predicate \<Rightarrow> int \<Rightarrow> range \<Rightarrow> range" where
  "filter_range pred const_val var_r =
     (case pred of
        ICMP_SGT \<Rightarrow> if const_val = INT_MAX then r_bot else mk_range (const_val + 1) INT_MAX
      | ICMP_SGE \<Rightarrow> mk_range const_val INT_MAX
      | ICMP_SLT \<Rightarrow> if const_val = INT_MIN then r_bot else mk_range INT_MIN (const_val - 1)
      | ICMP_SLE \<Rightarrow> mk_range INT_MIN const_val
      | ICMP_EQ \<Rightarrow> mk_range const_val const_val
      | ICMP_NE \<Rightarrow>
          if get_low var_r = const_val \<and> get_high var_r = const_val then r_bot else r_top
      | _ \<Rightarrow> r_top)"

definition refine_br :: "terminator \<Rightarrow> nat \<Rightarrow> block_state \<Rightarrow> block_state" where
  "refine_br br succ pred_state =
     (case br of
        CondBr cond true_bb false_bb \<Rightarrow>
          (case cond of
             ICmpInst n pred0 lhs rhs \<Rightarrow>
               (case match_cmp pred0 lhs rhs pred_state of
                  None \<Rightarrow> pred_state
                | Some (var, const_val, pred) \<Rightarrow>
                    (case map_of (val_ranges pred_state) var of
                       None \<Rightarrow> pred_state
                     | Some var_r \<Rightarrow>
                         let is_true_path = (succ = true_bb);
                             pred = (if \<not> is_true_path then getInversePredicate pred else pred);
                             filter_r = filter_range pred const_val var_r;
                             refined = range_intersect var_r filter_r;
                             pred_state = set_val pred_state var refined
                         in if refined = r_bot then pred_state\<lparr>reachable := False\<rparr>
                            else pred_state))
           | _ \<Rightarrow> pred_state)
      | _ \<Rightarrow> pred_state)"

definition refine_sw :: "terminator \<Rightarrow> nat \<Rightarrow> block_state \<Rightarrow> block_state" where
  "refine_sw sw succ pred_state =
     (case sw of
        Switch cond default_dest cases \<Rightarrow>
          (let var =
                 (case cond of
                    LoadInst n p ptr \<Rightarrow> Some (get_base_ptr ptr)
                  | Argument n p \<Rightarrow> Some cond
                  | _ \<Rightarrow> if map_of (val_ranges pred_state) cond \<noteq> None then Some cond else None)
           in case var of
                None \<Rightarrow> pred_state
              | Some var \<Rightarrow>
                  (case map_of (val_ranges pred_state) var of
                     None \<Rightarrow> pred_state
                   | Some old_r \<Rightarrow>
                       if default_dest = succ then pred_state
                       else
                         let case_r = foldl (\<lambda>case_r (v, dest).
                                         if dest = succ then range_join case_r (mk_range v v)
                                         else case_r) r_bot cases;
                             refined = range_intersect old_r case_r;
                             pred_state = set_val pred_state var refined
                         in if refined = r_bot then pred_state\<lparr>reachable := False\<rparr>
                            else pred_state))
      | _ \<Rightarrow> pred_state)"

definition widen_loop ::
  "block_state \<Rightarrow> block_state \<Rightarrow> nat \<Rightarrow> nat \<Rightarrow> (nat \<times> nat) list \<Rightarrow> block_state" where
  "widen_loop pred_state in_state pred_bb curr_bb back_edges =
     (if (pred_bb, curr_bb) \<notin> set back_edges then pred_state
      else
        let pred_state =
              foldl (\<lambda>pred_state (val, old_r).
                       case map_of (val_ranges pred_state) val of
                         None \<Rightarrow> pred_state
                       | Some new_r \<Rightarrow>
                           if old_r \<noteq> new_r \<and> old_r \<noteq> r_bot
                           then
                             let lower_expanding = (get_low new_r < get_low old_r);
                                 upper_expanding = (get_high new_r > get_high old_r)
                             in if lower_expanding \<or> upper_expanding
                                then
                                  let new_low = (if lower_expanding then INT_MIN else get_low new_r);
                                      new_high = (if upper_expanding then INT_MAX else get_high new_r)
                                  in set_val pred_state val (mk_range new_low new_high)
                                else pred_state
                           else pred_state)
                    pred_state (val_ranges in_state)
        in foldl (\<lambda>pred_state (alloc, old_arr).
                    case map_of (arr_states pred_state) alloc of
                      None \<Rightarrow> pred_state
                    | Some a \<Rightarrow>
                        if default_r a \<noteq> default_r old_arr \<or> elem_map a \<noteq> elem_map old_arr
                        then set_arr pred_state alloc (a\<lparr>default_r := r_top, elem_map := []\<rparr>)
                        else pred_state)
                 pred_state (arr_states in_state))"

section \<open>The fixpoint driver\<close>

record solver =
  wk :: "nat list"
  in_wk :: "nat set"
  in_state :: state_map
  out_state :: state_map

text \<open>The state of \<open>run_pass\<close> when it enters the \<open>while\<close> loop.\<close>

definition init_solver :: "func \<Rightarrow> solver" where
  "init_solver F =
     \<lparr>wk = map bb_name (blocks F), in_wk = set (map bb_name (blocks F)),
      in_state = [], out_state = []\<rparr>"

definition compute_in_state :: "func \<Rightarrow> solver \<Rightarrow> nat \<Rightarrow> block_state" where
  "compute_in_state F sv BB =
     (if is_entry F BB
      then foldl (\<lambda>new_in_state arg. set_val new_in_state arg r_top)
             (new_block_state\<lparr>reachable := True\<rparr>) (fargs F)
      else
        foldl (\<lambda>new_in_state pred_bb.
                 if \<not> reachable (state_of (out_state sv) pred_bb) then new_in_state
                 else
                   let pred_out = state_of (out_state sv) pred_bb;
                       pred_out =
                         (case block_named F pred_bb of
                            None \<Rightarrow> pred_out
                          | Some pb \<Rightarrow>
                              (case getTerminator pb of
                                 Br b \<Rightarrow> refine_br (getTerminator pb) BB pred_out
                               | CondBr c t f \<Rightarrow> refine_br (getTerminator pb) BB pred_out
                               | Switch c d cases \<Rightarrow> refine_sw (getTerminator pb) BB pred_out
                               | _ \<Rightarrow> pred_out));
                       pred_out = widen_loop pred_out (state_of (in_state sv) BB) pred_bb BB (function_backedges F)
                   in if reachable pred_out then snd (join_state new_in_state pred_out)
                      else new_in_state)
              new_block_state (predecessors F BB))"

definition push_successors :: "func \<Rightarrow> nat \<Rightarrow> solver \<Rightarrow> solver" where
  "push_successors F BB sv =
     foldl (\<lambda>sv succ_bb.
              if succ_bb \<notin> in_wk sv
              then sv\<lparr>wk := wk sv @ [succ_bb], in_wk := insert succ_bb (in_wk sv)\<rparr>
              else sv)
           sv (case block_named F BB of None \<Rightarrow> [] | Some b \<Rightarrow> successors (getTerminator b))"

text \<open>One iteration of the \<open>while (!wk.empty())\<close> loop, for a non-empty queue.\<close>

definition solver_step :: "func \<Rightarrow> solver \<Rightarrow> solver" where
  "solver_step F sv =
     (case wk sv of
        [] \<Rightarrow> sv
      | BB # rest \<Rightarrow>
          let sv = sv\<lparr>wk := rest, in_wk := in_wk sv - {BB}\<rparr>;
              new_in_state = compute_in_state F sv BB;
              sv = sv\<lparr>in_state := AList.update BB new_in_state (in_state sv)\<rparr>;
              old_out_state = state_of (out_state sv) BB;
              current_state = state_of (in_state sv) BB
          in if \<not> reachable current_state
             then
               let sv = sv\<lparr>out_state := AList.update BB current_state (out_state sv)\<rparr>
               in if block_state_neq old_out_state current_state then push_successors F BB sv else sv
             else
               let current_state =
                     foldl (\<lambda>current_state inst. transfer_inst (phis F) inst current_state (out_state sv))
                       current_state (case block_named F BB of None \<Rightarrow> [] | Some b \<Rightarrow> insts b);
                   sv = sv\<lparr>out_state := AList.update BB current_state (out_state sv)\<rparr>
               in if block_state_neq old_out_state current_state then push_successors F BB sv else sv)"

partial_function (option) solve :: "func \<Rightarrow> solver \<Rightarrow> solver option" where
  "solve F sv = (if wk sv = [] then Some sv else solve F (solver_step F sv))"

declare solve.simps [code]

section \<open>The instrumentation decision and the rewrite\<close>

text \<open>The parameter \<open>size\<close> is a \<open>uint64_t\<close>; \<open>(int)size\<close> is \<open>to_int\<close> of it.\<close>

definition needs_check :: "range \<Rightarrow> nat \<Rightarrow> bool" where
  "needs_check r sz =
     (if r = r_bot then False
      else if sz = 0 then True
      else if r \<noteq> r_top \<and> get_low r \<ge> 0 \<and> get_high r < to_int (int sz) then False
      else True)"

text \<open>
  The lines written to \<open>errs()\<close>, one constructor for each output statement of the source,
  with the values it prints.
\<close>

datatype diag =
    Instrumenting val
  | SkippedUnreachable val
  | CheckingIndex val
  | IndexRange range
  | IndexLoadedFrom val
  | PtrRange range
  | FinalRange range
  | UnreachableMsg
  | ShouldBeSafe int int int
  | NeedsCheckMsg range nat
  | SkippedCheck val

text \<open>
  \<open>add_check\<close> reads the second index of the GEP without testing that there is one; on a
  GEP with fewer indices the source reads past the index list, which is \<open>IndexOverrun\<close> here.
\<close>

datatype error = IndexOverrun

definition getParent :: "func \<Rightarrow> val \<Rightarrow> block option" where
  "getParent F inst = find (\<lambda>b. inst \<in> set (insts b)) (blocks F)"

definition is_phi_named :: "nat \<Rightarrow> val \<Rightarrow> bool" where
  "is_phi_named n i = (case i of PHINode m p \<Rightarrow> m = n | _ \<Rightarrow> False)"

text \<open>
  \<open>splitBasicBlock\<close> makes the phi nodes of the successors of the moved terminator name
  the new block instead of the old one.
\<close>

definition retarget_phis :: "func \<Rightarrow> nat list \<Rightarrow> nat \<Rightarrow> nat \<Rightarrow> phi_table" where
  "retarget_phis F succs old_bb new_bb =
     map (\<lambda>(n, inc).
            if list_ex (\<lambda>b. bb_name b \<in> set succs \<and> list_ex (is_phi_named n) (insts b)) (blocks F)
            then (n, map (\<lambda>(v, b). (v, if b = old_bb then new_bb else b)) inc)
            else (n, inc))
         (phis F)"

text \<open>
  The three values the \<open>IRBuilder\<close> creates are inserted before the GEP as they are written
  in the source; the folding the builder applies to constant operands is left out. The
  block is split before the GEP into itself and \<open>cont.bb\<close>, \<open>err.bb\<close> (which returns -1) is
  placed between them, and the branch to \<open>cont.bb\<close> is replaced by the conditional branch.
  The old terminator moves to \<open>cont.bb\<close>, so every use of a block by it now comes from
  \<open>cont.bb\<close>.
\<close>

definition add_check :: "val \<Rightarrow> nat \<Rightarrow> func \<Rightarrow> error + func" where
  "add_check gep sz F =
     (case second_index gep of
        None \<Rightarrow> Inl IndexOverrun
      | Some idx \<Rightarrow>
          (case getParent F gep of
             None \<Rightarrow> Inr F
           | Some curr_bb \<Rightarrow>
               let n = fresh F;
                   zero = ConstantInt 0;
                   size_val = ConstantInt (int sz);
                   low_check = ICmpInst n ICMP_SGE idx zero;
                   high_check = ICmpInst (n + 1) ICMP_SLT idx size_val;
                   in_bounds = BinaryOperator (n + 2) And low_check high_check;
                   cont_bb = n + 3;
                   err_bb = n + 4;
                   moved = (\<lambda>b. b\<lparr>bb_preds := map (\<lambda>p. if p = bb_name curr_bb then cont_bb else p) (bb_preds b)\<rparr>);
                   curr' = moved (curr_bb\<lparr>insts := takeWhile (\<lambda>i. i \<noteq> gep) (insts curr_bb) @
                                                   [low_check, high_check, in_bounds],
                                          getTerminator := CondBr in_bounds cont_bb err_bb\<rparr>);
                   err = \<lparr>bb_name = err_bb, insts = [], getTerminator = Ret, bb_preds = [bb_name curr_bb]\<rparr>;
                   cont = \<lparr>bb_name = cont_bb,
                           insts = dropWhile (\<lambda>i. i \<noteq> gep) (insts curr_bb),
                           getTerminator = getTerminator curr_bb,
                           bb_preds = [bb_name curr_bb]\<rparr>
               in Inr (F\<lparr>blocks := concat (map (\<lambda>b. if bb_name b = bb_name curr_bb
                                                   then [curr', err, cont] else [moved b]) (blocks F)),
                         phis := retarget_phis F (successors (getTerminator curr_bb)) (bb_name curr_bb) cont_bb,
                         fresh := n + 5\<rparr>)))"

text \<open>
  The state of the loop over the collected GEPs: the function, which \<open>add_check\<close> rewrites,
  the lines printed so far, and \<open>modified\<close>.
\<close>

record rewriter =
  cur_func :: func
  errs :: "diag list"
  modified :: bool

definition index_report :: "val \<Rightarrow> block_state \<Rightarrow> range \<times> diag list" where
  "index_report gep state_at_inst =
     (case second_index gep of
        None \<Rightarrow> (r_top, [])
      | Some idx_val \<Rightarrow>
          let idx_r = get_range idx_val state_at_inst
          in (idx_r,
              [CheckingIndex idx_val] @
              (case map_of (val_ranges state_at_inst) idx_val of
                 Some r \<Rightarrow> [IndexRange r] | None \<Rightarrow> []) @
              (case dyn_cast_LoadInst idx_val of
                 Some ptr \<Rightarrow>
                   [IndexLoadedFrom ptr] @
                   (case map_of (val_ranges state_at_inst) ptr of
                      Some r \<Rightarrow> [PtrRange r] | None \<Rightarrow> [])
               | None \<Rightarrow> []) @
              [FinalRange idx_r]))"

text \<open>The body of the loop \<open>for (GetElementPtrInst *gep : geps)\<close>.\<close>

definition instrument_gep :: "solver \<Rightarrow> rewriter \<Rightarrow> val \<Rightarrow> error + rewriter" where
  "instrument_gep sv rw gep =
     (case getParent (cur_func rw) gep of
        None \<Rightarrow> Inr rw
      | Some BB \<Rightarrow>
          if \<not> reachable (state_of (in_state sv) (bb_name BB))
          then Inr (rw\<lparr>errs := errs rw @ [SkippedUnreachable gep]\<rparr>)
          else
            (case get_base_ptr gep of
               AllocaInst a ty \<Rightarrow>
                 (case ty of
                    NonArrayTy \<Rightarrow> Inr rw
                  | ArrayTy arr_size \<Rightarrow>
                      let state_at_inst =
                            foldl (\<lambda>st inst. transfer_inst (phis (cur_func rw)) inst st (out_state sv))
                              (state_of (in_state sv) (bb_name BB))
                              (takeWhile (\<lambda>i. i \<noteq> gep) (insts BB));
                          (idx_r, report) = index_report gep state_at_inst;
                          needs_instrument = needs_check idx_r arr_size;
                          verdict =
                            (if idx_r = r_bot then [UnreachableMsg]
                             else if \<not> needs_instrument
                             then [ShouldBeSafe (get_low idx_r) (get_high idx_r)
                                     ((int arr_size - 1) mod 18446744073709551616)]
                             else [NeedsCheckMsg idx_r arr_size])
                      in if \<not> needs_instrument
                         then Inr (rw\<lparr>errs := errs rw @ report @ verdict @ [SkippedCheck gep]\<rparr>)
                         else
                           (case add_check gep arr_size (cur_func rw) of
                              Inl e \<Rightarrow> Inl e
                            | Inr F' \<Rightarrow>
                                Inr (rw\<lparr>cur_func := F',
                                        errs := errs rw @ report @ verdict @ [Instrumenting gep],
                                        modified := True\<rparr>)))
             | _ \<Rightarrow> Inr rw))"

fun instrument_geps :: "solver \<Rightarrow> rewriter \<Rightarrow> val list \<Rightarrow> error + rewriter" where
  "instrument_geps sv rw [] = Inr rw"
| "instrument_geps sv rw (gep # geps) =
     (case instrument_gep sv rw gep of
        Inl e \<Rightarrow> Inl e
      | Inr rw' \<Rightarrow> instrument_geps sv rw' geps)"

definition isa_GetElementPtrInst :: "val \<Rightarrow> bool" where
  "isa_GetElementPtrInst v = (case v of GetElementPtrInst n b idxs \<Rightarrow> True | _ \<Rightarrow> False)"

definition collect_geps :: "func \<Rightarrow> val list" where
  "collect_geps F = concat (map (\<lambda>BB. filter isa_GetElementPtrInst (insts BB)) (blocks F))"

section \<open>The pass entry point\<close>

datatype PreservedAnalyses = PreservedAll | PreservedNone

text \<open>
  What a run of the pass leaves behind: the returned value, the function (rewritten in
  place by the source) and the lines printed. \<open>run_pass\<close> is \<open>None\<close> when the \<open>while\<close> loop of
  the fixpoint driver does not end.
\<close>

record pass_result =
  returned :: PreservedAnalyses
  final_func :: func
  printed :: "diag list"

definition run_pass :: "func \<Rightarrow> (error + pass_result) option" where
  "run_pass F =
     (if fname F \<noteq> ''test''
      then Some (Inr \<lparr>returned = PreservedAll, final_func = F, printed = []\<rparr>)
      else
        (case solve F (init_solver F) of
           None \<Rightarrow> None
         | Some sv \<Rightarrow>
             Some (case instrument_geps sv \<lparr>cur_func = F, errs = [], modified = False\<rparr> (collect_geps F) of
                     Inl e \<Rightarrow> Inl e
                   | Inr rw \<Rightarrow>
                       Inr \<lparr>returned = (if modified rw then PreservedNone else PreservedAll),
                            final_func = cur_func rw, printed = errs rw\<rparr>)))"

section \<open>Notions used to state the properties\<close>

text \<open>
  The variable \<open>refine_br\<close> narrows when an operand of the comparison is matched against a
  constant: the base address a load reads from, or else the operand itself.
\<close>

definition compared_var :: "val \<Rightarrow> val" where
  "compared_var v = (case dyn_cast_LoadInst v of Some ptr \<Rightarrow> get_base_ptr ptr | None \<Rightarrow> v)"

text \<open>
  A function on which the fixpoint driver is run below:
  \<^verbatim>\<open>
  define i32 @test(i1 %c) {
  entry:
    %a = alloca [4 x i32]
    %i = alloca i32
    %p0 = getelementptr [4 x i32], ptr %a, i64 0, i64 0
    store i32 1, ptr %p0
    store i32 0, ptr %i
    br label %L
  L:
    %t = load i32, ptr %i
    %p = getelementptr [4 x i32], ptr %a, i64 0, i32 %t
    %v = load i32, ptr %p
    store i32 %v, ptr %i
    br i1 %c, label %L, label %exit
  exit:
    ret i32 0
  }
  \<close>
  The blocks \<open>entry\<close>, \<open>L\<close> and \<open>exit\<close> are 0, 1 and 2; the only back edge is the one from
  \<open>L\<close> to itself. \<open>L\<close> is used by the branch of \<open>entry\<close> and by its own; the parameter of
  \<open>osc_func\<close> is the order in which \<open>predecessors(L)\<close> lists the two.
\<close>

definition osc_c :: val where "osc_c = Argument 0 False"
definition osc_a :: val where "osc_a = AllocaInst 1 (ArrayTy 4)"
definition osc_i :: val where "osc_i = AllocaInst 2 NonArrayTy"
definition osc_p0 :: val where "osc_p0 = GetElementPtrInst 3 osc_a [ConstantInt 0, ConstantInt 0]"
definition osc_t :: val where "osc_t = LoadInst 6 False osc_i"
definition osc_p :: val where "osc_p = GetElementPtrInst 7 osc_a [ConstantInt 0, osc_t]"
definition osc_v :: val where "osc_v = LoadInst 8 False osc_p"

definition osc_func :: "nat list \<Rightarrow> func" where
  "osc_func preds_L =
     \<lparr>fname = ''test'', fargs = [osc_c],
      blocks =
        [\<lparr>bb_name = 0,
          insts = [osc_a, osc_i, osc_p0, StoreInst 4 (ConstantInt 1) osc_p0, StoreInst 5 (ConstantInt 0) osc_i],
          getTerminator = Br 1, bb_preds = []\<rparr>,
         \<lparr>bb_name = 1,
          insts = [osc_t, osc_p, osc_v, StoreInst 9 osc_v osc_i],
          getTerminator = CondBr osc_c 1 2, bb_preds = preds_L\<rparr>,
         \<lparr>bb_name = 2, insts = [], getTerminator = Ret, bb_preds = [1]\<rparr>],
      phis = [], function_backedges = [(1, 1)], fresh = 10\<rparr>"

text \<open>
  The states the driver passes through on \<open>osc_func\<close>, for either order. \<open>osc_state\<close> is a reachable block
  state with the given scalar facts and the array \<open>%a\<close> with slot 0 at \<open>[1,1]\<close> and default
  \<open>[0,0]\<close>; \<open>osc_solver\<close> is a solver state in which the entry block has its final states
  and the blocks \<open>L\<close> and \<open>exit\<close> have the given ones.
\<close>

definition itv :: "int \<Rightarrow> int \<Rightarrow> range" where
  "itv lo hi = \<lparr>safelane = lo, offlane = hi\<rparr>"

definition osc_state :: "(val \<times> range) list \<Rightarrow> block_state" where
  "osc_state vr =
     \<lparr>val_ranges = (osc_c, itv (- 2147483648) 2147483647) # vr,
      arr_states = [(osc_a, \<lparr>elem_map = [(0, itv 1 1)], default_r = itv 0 0\<rparr>)],
      reachable = True\<rparr>"

definition osc_facts :: "range \<Rightarrow> range \<Rightarrow> range \<Rightarrow> block_state" where
  "osc_facts ri rt rv = osc_state [(osc_i, ri), (osc_t, rt), (osc_v, rv)]"

definition osc_solver :: "nat list \<Rightarrow> block_state \<Rightarrow> block_state \<Rightarrow> solver" where
  "osc_solver q in_L out_L =
     \<lparr>wk = q, in_wk = set q,
      in_state =
        [(0, \<lparr>val_ranges = [(osc_c, itv (- 2147483648) 2147483647)], arr_states = [], reachable = True\<rparr>),
         (1, in_L),
         (2, osc_facts (itv 1 1) (itv 0 0) (itv 1 1))],
      out_state =
        [(0, osc_state [(osc_i, itv 0 0)]),
         (1, out_L),
         (2, osc_facts (itv 1 1) (itv 0 0) (itv 1 1))]\<rparr>"

text \<open>
  The state after the first four iterations, and the three states of the cycle: \<open>L\<close> is
  popped from the first and from the last of them.
\<close>

definition osc_s0 :: solver where
  "osc_s0 = osc_solver [1, 2]
     (osc_facts (itv 0 2147483647) (itv 0 0) (itv 1 1))
     (osc_facts (itv 0 0) (itv 0 2147483647) (itv 0 0))"


definition osc_s1 :: solver where
  "osc_s1 = osc_solver [1, 2]
     (osc_facts (itv 0 2147483647) (itv 0 0) (itv 1 2147483647))
     (osc_facts (itv 0 0) (itv 0 2147483647) (itv 0 0))"

definition osc_s2 :: solver where
  "osc_s2 = osc_solver [2, 1]
     (osc_facts (itv 0 0) (itv 0 2147483647) (itv (- 2147483648) 0))
     (osc_facts (itv 1 1) (itv 0 0) (itv 1 1))"

definition osc_s3 :: solver where
  "osc_s3 = osc_solver [1]
     (osc_facts (itv 0 0) (itv 0 2147483647) (itv (- 2147483648) 0))
     (osc_facts (itv 1 1) (itv 0 0) (itv 1 1))"

text \<open>
  A function with two indexed accesses in one block, each at an index that is an argument:
  \<^verbatim>\<open>
  define i32 @test(i32 %x, i32 %y) {
  entry:
    %a = alloca [4 x i32]
    %p = getelementptr [4 x i32], ptr %a, i64 0, i32 %x
    store i32 1, ptr %p
    %q = getelementptr [4 x i32], ptr %a, i64 0, i32 %y
    store i32 2, ptr %q
    ret i32 0
  }
  \<close>
\<close>

definition two_x :: val where "two_x = Argument 0 False"
definition two_y :: val where "two_y = Argument 1 False"
definition two_a :: val where "two_a = AllocaInst 2 (ArrayTy 4)"
definition two_p :: val where "two_p = GetElementPtrInst 3 two_a [ConstantInt 0, two_x]"
definition two_q :: val where "two_q = GetElementPtrInst 5 two_a [ConstantInt 0, two_y]"

definition two_func :: func where
  "two_func =
     \<lparr>fname = ''test'', fargs = [two_x, two_y],
      blocks =
        [\<lparr>bb_name = 0,
          insts = [two_a, two_p, StoreInst 4 (ConstantInt 1) two_p, two_q, StoreInst 6 (ConstantInt 2) two_q],
          getTerminator = Ret, bb_preds = []\<rparr>],
      phis = [], function_backedges = [], fresh = 7\<rparr>"

text \<open>The lines printed by a run of the pass that ends without an error.\<close>

definition diagnostics :: "func \<Rightarrow> diag list option" where
  "diagnostics F = (case run_pass F of Some (Inr res) \<Rightarrow> Some (printed res) | _ \<Rightarrow> None)"

section \<open>Properties of the interval lattice\<close>

lemma to_int_id: "is_i32 v \<Longrightarrow> to_int v = v"
  by (simp add: to_int_def is_i32_def INT_MIN_def INT_MAX_def)

lemma is_i32_clamp: "is_i32 (clamp_i32 v)"
  by (simp add: clamp_i32_def is_i32_def INT_MIN_def INT_MAX_def)

lemma clamp_mono: "x \<le> y \<Longrightarrow> clamp_i32 x \<le> clamp_i32 y"
  by (simp add: clamp_i32_def INT_MIN_def INT_MAX_def)

lemma r_bot_fields: "safelane r_bot = INT_MAX" "offlane r_bot = INT_MIN"
  by (simp_all add: r_bot_def mk_range_def to_int_def INT_MIN_def INT_MAX_def)

lemma r_top_fields: "safelane r_top = INT_MIN" "offlane r_top = INT_MAX"
  by (simp_all add: r_top_def mk_range_def to_int_def INT_MIN_def INT_MAX_def)

lemma r_bot_iff: "(r = r_bot) = (safelane r = INT_MAX \<and> offlane r = INT_MIN)"
  by (cases r) (auto simp: r_bot_def mk_range_def to_int_def INT_MIN_def INT_MAX_def)

lemma r_top_iff: "(r = r_top) = (safelane r = INT_MIN \<and> offlane r = INT_MAX)"
  by (cases r) (auto simp: r_top_def mk_range_def to_int_def INT_MIN_def INT_MAX_def)

lemma mk_range_fields: "is_i32 lo \<Longrightarrow> is_i32 hi \<Longrightarrow> mk_range lo hi = \<lparr>safelane = lo, offlane = hi\<rparr>"
  by (simp add: mk_range_def to_int_id)

lemma mk_range_clamp: "mk_range (clamp_i32 x) (clamp_i32 y) = \<lparr>safelane = clamp_i32 x, offlane = clamp_i32 y\<rparr>"
  by (simp add: mk_range_fields is_i32_clamp)

lemma mult_le_max_left:
  fixes x :: int
  assumes "a \<le> x" "x \<le> b"
  shows "x * y \<le> max (a * y) (b * y)"
proof (cases "0 \<le> y")
  case True
  with assms have "x * y \<le> b * y" by (simp add: mult_right_mono)
  then show ?thesis by simp
next
  case False
  with assms have "x * y \<le> a * y" by (simp add: mult_right_mono_neg)
  then show ?thesis by simp
qed

lemma mult_ge_min_left:
  fixes x :: int
  assumes "a \<le> x" "x \<le> b"
  shows "min (a * y) (b * y) \<le> x * y"
proof (cases "0 \<le> y")
  case True
  with assms have "a * y \<le> x * y" by (simp add: mult_right_mono)
  then show ?thesis by simp
next
  case False
  with assms have "b * y \<le> x * y" by (simp add: mult_right_mono_neg)
  then show ?thesis by simp
qed

lemma mult_upper:
  fixes x y :: int
  assumes "a \<le> x" "x \<le> b" "c \<le> y" "y \<le> d"
  shows "x * y \<le> max (max (max (a * c) (a * d)) (b * c)) (b * d)"
proof -
  have 1: "x * y \<le> max (a * y) (b * y)" using assms by (simp add: mult_le_max_left)
  have 2: "a * y \<le> max (a * c) (a * d)"
    using mult_le_max_left [OF assms(3,4), of a] by (simp add: mult.commute)
  have 3: "b * y \<le> max (b * c) (b * d)"
    using mult_le_max_left [OF assms(3,4), of b] by (simp add: mult.commute)
  from 1 2 3 show ?thesis by linarith
qed

lemma mult_lower:
  fixes x y :: int
  assumes "a \<le> x" "x \<le> b" "c \<le> y" "y \<le> d"
  shows "min (min (min (a * c) (a * d)) (b * c)) (b * d) \<le> x * y"
proof -
  have 1: "min (a * y) (b * y) \<le> x * y" using assms by (simp add: mult_ge_min_left)
  have 2: "min (a * c) (a * d) \<le> a * y"
    using mult_ge_min_left [OF assms(3,4), of a] by (simp add: mult.commute)
  have 3: "min (b * c) (b * d) \<le> b * y"
    using mult_ge_min_left [OF assms(3,4), of b] by (simp add: mult.commute)
  from 1 2 3 show ?thesis by linarith
qed

lemma clamp_min: "clamp_i32 (min x y) = min (clamp_i32 x) (clamp_i32 y)"
  by (simp add: clamp_i32_def min_def INT_MIN_def INT_MAX_def)

lemma clamp_max: "clamp_i32 (max x y) = max (clamp_i32 x) (clamp_i32 y)"
  by (simp add: clamp_i32_def max_def INT_MIN_def INT_MAX_def)

lemma is_i32_min: "is_i32 x \<Longrightarrow> is_i32 y \<Longrightarrow> is_i32 (min x y)"
  by (simp add: is_i32_def min_def)

lemma is_i32_max: "is_i32 x \<Longrightarrow> is_i32 y \<Longrightarrow> is_i32 (max x y)"
  by (simp add: is_i32_def max_def)

lemma contains_add:
  assumes "contains a x" "contains b y"
  shows "contains (range_add a b) (clamp_i32 (x + y))"
proof -
  from assms have nb: "a \<noteq> r_bot" "b \<noteq> r_bot"
    by (auto simp: contains_def get_low_def get_high_def r_bot_fields INT_MIN_def INT_MAX_def)
  from assms have "safelane a + safelane b \<le> x + y" "x + y \<le> offlane a + offlane b"
    by (auto simp: contains_def get_low_def get_high_def)
  then have "clamp_i32 (safelane a + safelane b) \<le> clamp_i32 (x + y)"
    "clamp_i32 (x + y) \<le> clamp_i32 (offlane a + offlane b)"
    by (auto intro: clamp_mono)
  with nb show ?thesis
    by (simp add: range_add_def Let_def mk_range_clamp contains_def get_low_def get_high_def)
qed

lemma contains_sub:
  assumes "contains a x" "contains b y"
  shows "contains (range_sub a b) (clamp_i32 (x - y))"
proof -
  from assms have nb: "a \<noteq> r_bot" "b \<noteq> r_bot"
    by (auto simp: contains_def get_low_def get_high_def r_bot_fields INT_MIN_def INT_MAX_def)
  from assms have "safelane a - offlane b \<le> x - y" "x - y \<le> offlane a - safelane b"
    by (auto simp: contains_def get_low_def get_high_def)
  then have "clamp_i32 (safelane a - offlane b) \<le> clamp_i32 (x - y)"
    "clamp_i32 (x - y) \<le> clamp_i32 (offlane a - safelane b)"
    by (auto intro: clamp_mono)
  with nb show ?thesis
    by (simp add: range_sub_def Let_def mk_range_clamp contains_def get_low_def get_high_def)
qed

lemma contains_mul:
  assumes "contains a x" "contains b y"
  shows "contains (range_mul a b) (clamp_i32 (x * y))"
proof -
  from assms have nb: "a \<noteq> r_bot" "b \<noteq> r_bot"
    by (auto simp: contains_def get_low_def get_high_def r_bot_fields INT_MIN_def INT_MAX_def)
  from assms have b: "safelane a \<le> x" "x \<le> offlane a" "safelane b \<le> y" "y \<le> offlane b"
    by (auto simp: contains_def get_low_def get_high_def)
  define t1 t2 t3 t4 where "t1 = safelane a * safelane b" and "t2 = safelane a * offlane b"
    and "t3 = offlane a * safelane b" and "t4 = offlane a * offlane b"
  define lo hi where "lo = min (min (min (clamp_i32 t1) (clamp_i32 t2)) (clamp_i32 t3)) (clamp_i32 t4)"
    and "hi = max (max (max (clamp_i32 t1) (clamp_i32 t2)) (clamp_i32 t3)) (clamp_i32 t4)"
  have "clamp_i32 (min (min (min t1 t2) t3) t4) \<le> clamp_i32 (x * y)"
    unfolding t1_def t2_def t3_def t4_def by (rule clamp_mono [OF mult_lower [OF b]])
  then have lo: "lo \<le> clamp_i32 (x * y)"
    by (simp only: clamp_min lo_def)
  have "clamp_i32 (x * y) \<le> clamp_i32 (max (max (max t1 t2) t3) t4)"
    unfolding t1_def t2_def t3_def t4_def by (rule clamp_mono [OF mult_upper [OF b]])
  then have hi: "clamp_i32 (x * y) \<le> hi"
    by (simp only: clamp_max hi_def)
  have i: "is_i32 lo" "is_i32 hi"
    unfolding lo_def hi_def by (intro is_i32_min is_i32_max is_i32_clamp)+
  have "range_mul a b = mk_range lo hi"
    using nb by (simp only: range_mul_def Let_def lo_def hi_def t1_def t2_def t3_def t4_def if_False simp_thms)
  also have "\<dots> = \<lparr>safelane = lo, offlane = hi\<rparr>"
    by (rule mk_range_fields [OF i])
  finally show ?thesis
    using lo hi by (simp add: contains_def get_low_def get_high_def)
qed

text \<open>
  Claim C5: for non-Bottom intervals \<open>a\<close> and \<open>b\<close> and integers \<open>x\<close> in \<open>a\<close> and \<open>y\<close> in \<open>b\<close>,
  the saturated sum, difference and product of \<open>x\<close> and \<open>y\<close> lie in \<open>range_add a b\<close>,
  \<open>range_sub a b\<close> and \<open>range_mul a b\<close>; a Bottom operand gives Bottom. Nothing is assumed
  about the bounds, so the saturation boundaries are covered.
\<close>

theorem range_arith_sound:
  "(a = r_bot \<or> b = r_bot \<longrightarrow>
      range_add a b = r_bot \<and> range_sub a b = r_bot \<and> range_mul a b = r_bot) \<and>
   (a \<noteq> r_bot \<and> b \<noteq> r_bot \<and> contains a x \<and> contains b y \<longrightarrow>
      contains (range_add a b) (clamp_i32 (x + y)) \<and>
      contains (range_sub a b) (clamp_i32 (x - y)) \<and>
      contains (range_mul a b) (clamp_i32 (x * y)))"
  by (simp add: contains_add contains_sub contains_mul)
     (auto simp: range_add_def range_sub_def range_mul_def)

theorem range_arith_sound_witness:
  "mk_range 2147483000 INT_MAX \<noteq> r_bot \<and> mk_range (- 3) 1000 \<noteq> r_bot \<and>
   contains (mk_range 2147483000 INT_MAX) INT_MAX \<and> contains (mk_range (- 3) 1000) 7 \<and>
   contains (range_add (mk_range 2147483000 INT_MAX) (mk_range (- 3) 1000)) INT_MAX \<and>
   contains (range_sub (mk_range 2147483000 INT_MAX) (mk_range (- 3) 1000)) 2147483640 \<and>
   contains (range_mul (mk_range 2147483000 INT_MAX) (mk_range (- 3) 1000)) INT_MAX \<and>
   range_add r_bot (mk_range (- 3) 1000) = r_bot"
proof -
  have h: "mk_range 2147483000 INT_MAX \<noteq> r_bot \<and> mk_range (- 3) 1000 \<noteq> r_bot \<and>
     contains (mk_range 2147483000 INT_MAX) INT_MAX \<and> contains (mk_range (- 3) 1000) 7"
    by (simp add: mk_range_def r_bot_def to_int_def INT_MAX_def INT_MIN_def contains_def get_low_def get_high_def)
  have c: "clamp_i32 (INT_MAX + 7) = INT_MAX" "clamp_i32 (INT_MAX - 7) = 2147483640"
    "clamp_i32 (INT_MAX * 7) = INT_MAX"
    by (simp_all add: clamp_i32_def INT_MAX_def INT_MIN_def)
  from range_arith_sound [of "mk_range 2147483000 INT_MAX" "mk_range (- 3) 1000" INT_MAX 7]
    range_arith_sound [of r_bot "mk_range (- 3) 1000" 0 0] h c
  show ?thesis by simp
qed

subsection \<open>Lattice laws\<close>

lemma wf_r_bot: "wf_range r_bot"
  by (simp add: wf_range_def r_bot_fields is_i32_def INT_MIN_def INT_MAX_def)

lemma join_fields:
  assumes "wf_range a" "wf_range b" "a \<noteq> r_bot" "b \<noteq> r_bot"
  shows "range_join a b = \<lparr>safelane = min (safelane a) (safelane b), offlane = max (offlane a) (offlane b)\<rparr>"
  using assms by (simp add: range_join_def Let_def wf_range_def mk_range_fields is_i32_min is_i32_max)

lemma intersect_fields:
  assumes "wf_range a" "wf_range b" "a \<noteq> r_bot" "b \<noteq> r_bot"
  shows "range_intersect a b =
    (if max (safelane a) (safelane b) > min (offlane a) (offlane b) then r_bot
     else \<lparr>safelane = max (safelane a) (safelane b), offlane = min (offlane a) (offlane b)\<rparr>)"
  using assms by (simp add: range_intersect_def Let_def wf_range_def mk_range_fields is_i32_min is_i32_max)

lemma join_bot [simp]: "range_join r_bot b = b" "range_join a r_bot = a"
  by (simp_all add: range_join_def)

lemma intersect_bot [simp]: "range_intersect r_bot b = r_bot" "range_intersect a r_bot = r_bot"
  by (simp_all add: range_intersect_def)

lemma wf_nonbot: "wf_range a \<Longrightarrow> a \<noteq> r_bot \<Longrightarrow> safelane a \<le> offlane a"
  by (simp add: wf_range_def)

lemma nonbot_ordered: "safelane a \<le> offlane a \<Longrightarrow> a \<noteq> r_bot"
  by (auto simp: r_bot_iff INT_MIN_def INT_MAX_def)

lemma wf_join:
  assumes "wf_range a" "wf_range b"
  shows "wf_range (range_join a b)"
proof (cases "a = r_bot \<or> b = r_bot")
  case True
  with assms show ?thesis by auto
next
  case False
  then have nb: "a \<noteq> r_bot" "b \<noteq> r_bot" by auto
  have "min (safelane a) (safelane b) \<le> max (offlane a) (offlane b)"
    using wf_nonbot [OF assms(1) nb(1)] by (simp add: min_le_iff_disj le_max_iff_disj)
  then show ?thesis
    using assms by (simp add: join_fields [OF assms nb] wf_range_def is_i32_min is_i32_max)
qed

lemma join_not_bot:
  assumes "wf_range a" "wf_range b" "a \<noteq> r_bot"
  shows "range_join a b \<noteq> r_bot"
proof (cases "b = r_bot")
  case True
  with assms show ?thesis by simp
next
  case False
  have "min (safelane a) (safelane b) \<le> max (offlane a) (offlane b)"
    using wf_nonbot [OF assms(1,3)] by (simp add: min_le_iff_disj le_max_iff_disj)
  then show ?thesis
    by (simp add: join_fields [OF assms(1,2,3) False] nonbot_ordered)
qed

lemma wf_intersect:
  assumes "wf_range a" "wf_range b"
  shows "wf_range (range_intersect a b)"
proof (cases "a = r_bot \<or> b = r_bot")
  case True
  then show ?thesis by (auto simp: wf_r_bot)
next
  case False
  then have nb: "a \<noteq> r_bot" "b \<noteq> r_bot" by auto
  show ?thesis
  proof (cases "max (safelane a) (safelane b) > min (offlane a) (offlane b)")
    case True
    then show ?thesis by (simp add: intersect_fields [OF assms nb] wf_r_bot)
  next
    case False
    then have le: "max (safelane a) (safelane b) \<le> min (offlane a) (offlane b)"
      by (simp only: not_less)
    have "is_i32 (max (safelane a) (safelane b))" "is_i32 (min (offlane a) (offlane b))"
      using assms by (simp_all add: wf_range_def is_i32_min is_i32_max)
    with le False show ?thesis
      unfolding intersect_fields [OF assms nb] wf_range_def by simp
  qed
qed

lemma join_commute: "range_join a b = range_join b a"
  by (auto simp: range_join_def Let_def min.commute max.commute)

lemma intersect_commute: "range_intersect a b = range_intersect b a"
  by (auto simp: range_intersect_def Let_def min.commute max.commute)

lemma join_assoc:
  assumes "wf_range a" "wf_range b" "wf_range c"
  shows "range_join (range_join a b) c = range_join a (range_join b c)"
proof (cases "a = r_bot \<or> b = r_bot \<or> c = r_bot")
  case True
  then show ?thesis by auto
next
  case False
  then have nb: "a \<noteq> r_bot" "b \<noteq> r_bot" "c \<noteq> r_bot" by auto
  define ab bc where "ab = range_join a b" and "bc = range_join b c"
  have ab: "ab \<noteq> r_bot" "wf_range ab"
    using assms nb by (simp_all add: ab_def join_not_bot wf_join)
  have bc: "bc \<noteq> r_bot" "wf_range bc"
    using assms nb join_not_bot [OF assms(2,3)] by (simp_all add: bc_def wf_join)
  have fab: "safelane ab = min (safelane a) (safelane b)" "offlane ab = max (offlane a) (offlane b)"
    by (simp_all add: ab_def join_fields [OF assms(1,2) nb(1,2)])
  have fbc: "safelane bc = min (safelane b) (safelane c)" "offlane bc = max (offlane b) (offlane c)"
    by (simp_all add: bc_def join_fields [OF assms(2,3) nb(2,3)])
  have "range_join ab c = range_join a bc"
    by (simp add: join_fields [OF ab(2) assms(3) ab(1) nb(3)] join_fields [OF assms(1) bc(2) nb(1) bc(1)]
        fab fbc min.assoc max.assoc)
  then show ?thesis by (simp only: ab_def bc_def)
qed

text \<open>The integers an interval contains decide it, for intervals of the data model.\<close>

lemma contains_bot: "\<not> contains r_bot x"
  by (simp add: contains_def get_low_def get_high_def r_bot_fields INT_MIN_def INT_MAX_def)

lemma contains_intersect:
  assumes "wf_range a" "wf_range b"
  shows "contains (range_intersect a b) x = (contains a x \<and> contains b x)"
proof (cases "a = r_bot \<or> b = r_bot")
  case True
  then show ?thesis by (auto simp: contains_bot)
next
  case False
  then have nb: "a \<noteq> r_bot" "b \<noteq> r_bot" by auto
  show ?thesis
    by (simp add: intersect_fields [OF assms nb] contains_bot)
       (auto simp: contains_def get_low_def get_high_def)
qed

lemma wf_range_eqI:
  assumes "wf_range a" "wf_range b" "\<And>x. contains a x = contains b x"
  shows "a = b"
proof (cases "a = r_bot")
  case True
  show ?thesis
  proof (rule ccontr)
    assume "a \<noteq> b"
    with True have "b \<noteq> r_bot" by simp
    then have "contains b (safelane b)"
      using wf_nonbot [OF assms(2)] by (simp add: contains_def get_low_def get_high_def)
    with assms(3) True show False by (simp add: contains_bot)
  qed
next
  case False
  then have a: "contains a (safelane a)" "contains a (offlane a)"
    using wf_nonbot [OF assms(1)] by (simp_all add: contains_def get_low_def get_high_def)
  then have "b \<noteq> r_bot" using assms(3) contains_bot by auto
  then have b: "contains b (safelane b)" "contains b (offlane b)"
    using wf_nonbot [OF assms(2)] by (simp_all add: contains_def get_low_def get_high_def)
  from a b assms(3) have "contains b (safelane a)" "contains b (offlane a)"
    "contains a (safelane b)" "contains a (offlane b)" by simp_all
  then show ?thesis
    by (cases a, cases b) (simp add: contains_def get_low_def get_high_def)
qed

lemma intersect_assoc:
  assumes "wf_range a" "wf_range b" "wf_range c"
  shows "range_intersect (range_intersect a b) c = range_intersect a (range_intersect b c)"
  by (rule wf_range_eqI) (simp_all add: assms wf_intersect contains_intersect conj_assoc)

lemma intersect_idem: "wf_range a \<Longrightarrow> range_intersect a a = a"
  by (rule wf_range_eqI) (simp_all add: wf_intersect contains_intersect)

lemma range_leq_contains:
  assumes "wf_range a" "wf_range b"
  shows "range_leq a b = (\<forall>x. contains a x \<longrightarrow> contains b x)"
proof (cases "a = r_bot")
  case True
  then show ?thesis by (simp add: range_leq_def contains_bot)
next
  case False
  then have a: "contains a (safelane a)" "contains a (offlane a)"
    using wf_nonbot [OF assms(1)] by (simp_all add: contains_def get_low_def get_high_def)
  show ?thesis
  proof
    assume "range_leq a b"
    with False show "\<forall>x. contains a x \<longrightarrow> contains b x"
      by (auto simp: range_leq_def contains_def)
  next
    assume h: "\<forall>x. contains a x \<longrightarrow> contains b x"
    with a have "contains b (safelane a)" "contains b (offlane a)" by simp_all
    moreover from this have "b \<noteq> r_bot" using contains_bot by auto
    ultimately show "range_leq a b"
      by (simp add: range_leq_def contains_def get_low_def get_high_def)
  qed
qed

lemma contains_join:
  assumes "wf_range a" "wf_range b"
  shows "contains (range_join a b) x =
     (if a = r_bot then contains b x else if b = r_bot then contains a x
      else min (safelane a) (safelane b) \<le> x \<and> x \<le> max (offlane a) (offlane b))"
  using assms by (auto simp: join_fields contains_def get_low_def get_high_def)

lemma join_mono:
  assumes "wf_range a" "wf_range b" "wf_range c" "range_leq a b"
  shows "range_leq (range_join a c) (range_join b c)"
proof (cases "a = r_bot")
  case True
  show ?thesis
  proof (cases "c = r_bot")
    case True
    with \<open>a = r_bot\<close> show ?thesis by (simp add: range_leq_def)
  next
    case c: False
    show ?thesis
    proof (cases "b = r_bot")
      case True
      with \<open>a = r_bot\<close> c show ?thesis by (simp add: range_leq_def)
    next
      case False
      with \<open>a = r_bot\<close> c show ?thesis
        using join_not_bot [OF assms(2,3) False]
        by (simp add: range_leq_def join_fields [OF assms(2,3) False c] get_low_def get_high_def)
    qed
  qed
next
  case a: False
  with assms(4) have b: "b \<noteq> r_bot" and le: "safelane b \<le> safelane a" "offlane a \<le> offlane b"
    by (simp_all add: range_leq_def get_low_def get_high_def)
  show ?thesis
  proof (cases "c = r_bot")
    case True
    with assms(4) show ?thesis by simp
  next
    case c: False
    show ?thesis
      using join_not_bot [OF assms(2,3) b] le
      by (simp add: range_leq_def join_fields [OF assms(1,3) a c] join_fields [OF assms(2,3) b c]
          get_low_def get_high_def)
         (auto simp: min_def max_def)
  qed
qed

lemma intersect_mono:
  assumes "wf_range a" "wf_range b" "wf_range c" "range_leq a b"
  shows "range_leq (range_intersect a c) (range_intersect b c)"
  using assms by (simp add: range_leq_contains wf_intersect contains_intersect)


lemma range_eq_iff: "((a::range) = b) = (safelane a = safelane b \<and> offlane a = offlane b)"
  by (cases a, cases b) simp

lemma range_leq_iff_join:
  assumes "wf_range a" "wf_range b"
  shows "range_leq a b = (range_join a b = b)"
proof (cases "a = r_bot \<or> b = r_bot")
  case True
  then show ?thesis by (auto simp: range_leq_def)
next
  case False
  then have nb: "a \<noteq> r_bot" "b \<noteq> r_bot" by auto
  have "(range_join a b = b) =
     (min (safelane a) (safelane b) = safelane b \<and> max (offlane a) (offlane b) = offlane b)"
    by (simp add: join_fields [OF assms nb] range_eq_iff [of _ b])
  with nb show ?thesis
    by (auto simp: range_leq_def get_low_def get_high_def min_def max_def)
qed

text \<open>
  Claim C6: on intervals of the data model, \<open>range_join\<close> and \<open>range_intersect\<close> (meet) are
  commutative, associative and monotone in both arguments for the inclusion order
  \<open>range_leq\<close>; \<open>meet(a,a) = a\<close>, \<open>join(a,Bottom) = a\<close> and \<open>meet(a,Bottom) = Bottom\<close>.
\<close>

theorem range_lattice_laws:
  assumes "wf_range a" "wf_range b" "wf_range c"
  shows "range_join a b = range_join b a \<and>
         range_intersect a b = range_intersect b a \<and>
         range_join (range_join a b) c = range_join a (range_join b c) \<and>
         range_intersect (range_intersect a b) c = range_intersect a (range_intersect b c) \<and>
         (range_leq a b \<longrightarrow>
            range_leq (range_join a c) (range_join b c) \<and>
            range_leq (range_join c a) (range_join c b) \<and>
            range_leq (range_intersect a c) (range_intersect b c) \<and>
            range_leq (range_intersect c a) (range_intersect c b)) \<and>
         range_intersect a a = a \<and>
         range_join a r_bot = a \<and>
         range_intersect a r_bot = r_bot"
proof (intro conjI impI)
  show "range_join a b = range_join b a" by (rule join_commute)
  show "range_intersect a b = range_intersect b a" by (rule intersect_commute)
  show "range_join (range_join a b) c = range_join a (range_join b c)"
    by (rule join_assoc [OF assms])
  show "range_intersect (range_intersect a b) c = range_intersect a (range_intersect b c)"
    by (rule intersect_assoc [OF assms])
  show "range_intersect a a = a" by (rule intersect_idem [OF assms(1)])
  show "range_join a r_bot = a" by (rule join_bot)
  show "range_intersect a r_bot = r_bot" by (rule intersect_bot)
next
  assume le: "range_leq a b"
  show j: "range_leq (range_join a c) (range_join b c)" by (rule join_mono [OF assms le])
  show m: "range_leq (range_intersect a c) (range_intersect b c)" by (rule intersect_mono [OF assms le])
  show "range_leq (range_join c a) (range_join c b)"
    using j by (simp only: join_commute [of c])
  show "range_leq (range_intersect c a) (range_intersect c b)"
    using m by (simp only: intersect_commute [of c])
qed

theorem range_lattice_laws_witness:
  "wf_range (mk_range 0 10) \<and> wf_range (mk_range (- 5) 20) \<and> wf_range (mk_range 3 30) \<and>
   range_leq (mk_range 0 10) (mk_range (- 5) 20) \<and>
   range_join (mk_range 0 10) (mk_range (- 5) 20) = range_join (mk_range (- 5) 20) (mk_range 0 10) \<and>
   range_join (range_join (mk_range 0 10) (mk_range (- 5) 20)) (mk_range 3 30) =
     range_join (mk_range 0 10) (range_join (mk_range (- 5) 20) (mk_range 3 30)) \<and>
   range_leq (range_join (mk_range 0 10) (mk_range 3 30)) (range_join (mk_range (- 5) 20) (mk_range 3 30)) \<and>
   range_leq (range_intersect (mk_range 0 10) (mk_range 3 30))
     (range_intersect (mk_range (- 5) 20) (mk_range 3 30)) \<and>
   range_intersect (mk_range 0 10) (mk_range 0 10) = mk_range 0 10"
proof -
  have w: "wf_range (mk_range 0 10)" "wf_range (mk_range (- 5) 20)" "wf_range (mk_range 3 30)"
    by (simp_all add: wf_range_def mk_range_def to_int_def is_i32_def INT_MIN_def INT_MAX_def)
  have l: "range_leq (mk_range 0 10) (mk_range (- 5) 20)"
    by (simp add: range_leq_def mk_range_def to_int_def r_bot_def get_low_def get_high_def
        INT_MIN_def INT_MAX_def)
  from range_lattice_laws [OF w] l w show ?thesis by blast
qed


section \<open>Properties of the array abstract store\<close>

lemma map_of_map_set: "map_of (map_set k v m) = (map_of m)(k \<mapsto> v)"
  by (induction m) (auto simp: fun_upd_twist)

lemma load_elem_ConstantInt:
  "load_elem arr (ConstantInt i) st =
     (case map_of (elem_map arr) i of Some r \<Rightarrow> r | None \<Rightarrow> default_r arr)"
  by simp

lemma store_elem_ConstantInt: "store_elem arr (ConstantInt i) v st = set_slot arr i v"
  by (simp add: store_elem_def)

text \<open>
  Claim C7: after storing \<open>v\<close> at the constant index \<open>i\<close>, a load of \<open>i\<close> returns exactly \<open>v\<close>;
  the default summary is unchanged; a load of another constant index returns what it
  returned before the store, which is the default when the index has no slot.
\<close>

theorem store_load_roundtrip:
  "load_elem (store_elem arr (ConstantInt i) v st) (ConstantInt i) st' = v \<and>
   default_r (store_elem arr (ConstantInt i) v st) = default_r arr \<and>
   (j \<noteq> i \<longrightarrow>
      load_elem (store_elem arr (ConstantInt i) v st) (ConstantInt j) st' =
      load_elem arr (ConstantInt j) st') \<and>
   (j \<noteq> i \<and> map_of (elem_map arr) j = None \<longrightarrow>
      load_elem (store_elem arr (ConstantInt i) v st) (ConstantInt j) st' = default_r arr) \<and>
   (map_of (elem_map arr) j = None \<longrightarrow> load_elem arr (ConstantInt j) st' = default_r arr)"
  by (simp add: store_elem_ConstantInt set_slot_def map_of_map_set split: option.split)

theorem store_load_roundtrip_witness:
  "(5::int) \<noteq> 2 \<and> map_of (elem_map \<lparr>elem_map = [(1, mk_range 7 9)], default_r = mk_range 0 0\<rparr>) 5 = None \<and>
   load_elem (store_elem \<lparr>elem_map = [(1, mk_range 7 9)], default_r = mk_range 0 0\<rparr>
                (ConstantInt 2) (mk_range 3 4) new_block_state) (ConstantInt 2) new_block_state
     = mk_range 3 4 \<and>
   load_elem (store_elem \<lparr>elem_map = [(1, mk_range 7 9)], default_r = mk_range 0 0\<rparr>
                (ConstantInt 2) (mk_range 3 4) new_block_state) (ConstantInt 5) new_block_state
     = mk_range 0 0"
  using store_load_roundtrip [of "\<lparr>elem_map = [(1, mk_range 7 9)], default_r = mk_range 0 0\<rparr>"
      2 "mk_range 3 4" new_block_state new_block_state 5]
  by simp

lemma load_after_join_default_and_clear:
  "load_elem (join_default_and_clear arr v) idx st = range_join (default_r arr) v"
  by (cases idx) (simp_all add: join_default_and_clear_def slot_or_default_def split: option.split)

text \<open>
  Claim C1 does not hold of the code: a store at an index that is not exactly known joins
  only the written interval into the default and drops the slots without joining them in.
  Slot 3 holds \<open>[100,100]\<close>; after \<open>[5,5]\<close> is stored at an index known to be Top, a load of
  index 3 returns \<open>[0,5]\<close>, which does not include \<open>[100,100]\<close>.
\<close>

theorem store_elem_drops_slots:
  "load_elem \<lparr>elem_map = [(3, mk_range 100 100)], default_r = mk_range 0 0\<rparr> (ConstantInt 3)
     \<lparr>val_ranges = [(Argument 0 False, r_top)], arr_states = [], reachable = True\<rparr>
     = mk_range 100 100 \<and>
   load_elem
     (store_elem \<lparr>elem_map = [(3, mk_range 100 100)], default_r = mk_range 0 0\<rparr>
        (Argument 0 False) (mk_range 5 5)
        \<lparr>val_ranges = [(Argument 0 False, r_top)], arr_states = [], reachable = True\<rparr>)
     (ConstantInt 3)
     \<lparr>val_ranges = [(Argument 0 False, r_top)], arr_states = [], reachable = True\<rparr>
     = mk_range 0 5 \<and>
   \<not> range_leq (mk_range 100 100) (mk_range 0 5) \<and>
   contains (mk_range 100 100) 100 \<and> \<not> contains (mk_range 0 5) 100"
  by (simp add: store_elem_def join_default_and_clear_def is_singleton_def r_top_def r_bot_def
      range_join_def range_leq_def contains_def get_low_def get_high_def mk_range_def to_int_def
      INT_MIN_def INT_MAX_def)

section \<open>Properties of the block state\<close>

text \<open>
  Claim C2 does not hold of the code: \<open>operator!=\<close> compares the slot maps of an array by
  their size only. Two reachable states whose only array has one slot each are judged
  equal although the slot holds \<open>[1,1]\<close> in one and \<open>[2,2]\<close> in the other, or sits at index 0
  in one and at index 1 in the other.
\<close>

theorem block_state_neq_misses_slots:
  "\<not> block_state_neq
       \<lparr>val_ranges = [],
        arr_states = [(AllocaInst 1 (ArrayTy 4), \<lparr>elem_map = [(0, mk_range 1 1)], default_r = mk_range 0 0\<rparr>)],
        reachable = True\<rparr>
       \<lparr>val_ranges = [],
        arr_states = [(AllocaInst 1 (ArrayTy 4), \<lparr>elem_map = [(0, mk_range 2 2)], default_r = mk_range 0 0\<rparr>)],
        reachable = True\<rparr> \<and>
   \<not> block_state_neq
       \<lparr>val_ranges = [],
        arr_states = [(AllocaInst 1 (ArrayTy 4), \<lparr>elem_map = [(0, mk_range 1 1)], default_r = mk_range 0 0\<rparr>)],
        reachable = True\<rparr>
       \<lparr>val_ranges = [],
        arr_states = [(AllocaInst 1 (ArrayTy 4), \<lparr>elem_map = [(1, mk_range 1 1)], default_r = mk_range 0 0\<rparr>)],
        reachable = True\<rparr> \<and>
   [(0, mk_range 1 1)] \<noteq> [(0::int, mk_range 2 2)] \<and>
   [(0, mk_range 1 1)] \<noteq> [(1::int, mk_range 1 1)]"
  by (simp add: block_state_neq_def mk_range_def to_int_def)

theorem block_state_neq_misses_slots_witness:
  "\<not> block_state_neq
       \<lparr>val_ranges = [],
        arr_states = [(AllocaInst 1 (ArrayTy 4), \<lparr>elem_map = [(0, mk_range 1 1)], default_r = mk_range 0 0\<rparr>)],
        reachable = True\<rparr>
       \<lparr>val_ranges = [],
        arr_states = [(AllocaInst 1 (ArrayTy 4), \<lparr>elem_map = [(0, mk_range 2 2)], default_r = mk_range 0 0\<rparr>)],
        reachable = True\<rparr>"
  by (rule block_state_neq_misses_slots [THEN conjunct1])


section \<open>Properties of the transfer function\<close>

lemma clobber_arg_arr_None:
  "(map_of (arr_states (clobber_arg s x)) b = None) = (map_of (arr_states s) b = None)"
  by (auto simp: clobber_arg_def set_arr_def set_val_def Let_def update_conv' split: option.splits)

lemma clobber_arg_keeps_reset:
  "map_of (arr_states s) b = Some \<lparr>elem_map = [], default_r = r_top\<rparr> \<Longrightarrow>
   map_of (arr_states (clobber_arg s x)) b = Some \<lparr>elem_map = [], default_r = r_top\<rparr>"
  by (auto simp: clobber_arg_def set_arr_def set_val_def Let_def update_conv' split: option.splits)

lemma clobber_arg_keeps_top:
  "map_of (val_ranges s) b = Some r_top \<Longrightarrow> map_of (val_ranges (clobber_arg s x)) b = Some r_top"
  by (auto simp: clobber_arg_def set_arr_def set_val_def Let_def update_conv' split: option.splits)

lemma clobber_arg_base:
  assumes "isPointerTy x"
  shows "case map_of (arr_states s) (get_base_ptr x) of
           Some a \<Rightarrow> map_of (arr_states (clobber_arg s x)) (get_base_ptr x) =
                      Some \<lparr>elem_map = [], default_r = r_top\<rparr>
         | None \<Rightarrow> map_of (val_ranges (clobber_arg s x)) (get_base_ptr x) = Some r_top"
  using assms
  by (cases "map_of (arr_states s) (get_base_ptr x)")
     (simp_all add: clobber_arg_def set_arr_def set_val_def Let_def update_conv')

lemma foldl_clobber_arr_None:
  "(map_of (arr_states (foldl clobber_arg s xs)) b = None) = (map_of (arr_states s) b = None)"
  by (induction xs arbitrary: s) (simp_all add: clobber_arg_arr_None)

lemma foldl_clobber_keeps_reset:
  "map_of (arr_states s) b = Some \<lparr>elem_map = [], default_r = r_top\<rparr> \<Longrightarrow>
   map_of (arr_states (foldl clobber_arg s xs)) b = Some \<lparr>elem_map = [], default_r = r_top\<rparr>"
  by (induction xs arbitrary: s) (simp_all add: clobber_arg_keeps_reset)

lemma foldl_clobber_keeps_top:
  "map_of (val_ranges s) b = Some r_top \<Longrightarrow>
   map_of (val_ranges (foldl clobber_arg s xs)) b = Some r_top"
  by (induction xs arbitrary: s) (simp_all add: clobber_arg_keeps_top)

lemma foldl_clobber_args:
  assumes "arg \<in> set args" "isPointerTy arg"
  shows "case map_of (arr_states s) (get_base_ptr arg) of
           Some a \<Rightarrow> map_of (arr_states (foldl clobber_arg s args)) (get_base_ptr arg) =
                      Some \<lparr>elem_map = [], default_r = r_top\<rparr>
         | None \<Rightarrow> map_of (val_ranges (foldl clobber_arg s args)) (get_base_ptr arg) = Some r_top"
  using assms(1)
proof (induction args arbitrary: s)
  case Nil
  then show ?case by simp
next
  case (Cons x xs)
  show ?case
  proof (cases "arg = x")
    case True
    show ?thesis
      using clobber_arg_base [OF assms(2), of s] True
      by (auto simp: foldl_clobber_keeps_reset foldl_clobber_keeps_top split: option.splits)
  next
    case False
    with Cons.prems have "arg \<in> set xs" by simp
    from Cons.IH [OF this, of "clobber_arg s x"] show ?thesis
      using clobber_arg_arr_None [of s x "get_base_ptr arg"]
      by (auto split: option.splits)
  qed
qed

lemma transfer_inst_CallInst:
  "transfer_inst tab (CallInst n p callee args) st outs =
     set_val (case callee of Some fn \<Rightarrow> foldl clobber_arg st args | None \<Rightarrow> st)
       (CallInst n p callee args) r_top"
  by (simp add: transfer_inst_def)

text \<open>
  Claim C3 does not hold of the code. For a call whose callee is not known
  (\<open>getCalledFunction()\<close> is null) the loop over the arguments is skipped: a tracked array
  and a tracked scalar passed by pointer keep their facts, and only the result of the call
  is bound to Top. For a call with a known callee, a base that has both an array store and
  a scalar binding (the array was also written through its own address) keeps the scalar
  binding, since the scalar is reset only in the \<open>else\<close> branch of the test for the array
  store.
\<close>

theorem call_leaves_facts:
  "isPointerTy (AllocaInst 1 (ArrayTy 4)) \<and> isPointerTy (AllocaInst 2 NonArrayTy) \<and>
   map_of (arr_states
       (transfer_inst [] (CallInst 9 False None [AllocaInst 1 (ArrayTy 4), AllocaInst 2 NonArrayTy])
          \<lparr>val_ranges = [(AllocaInst 2 NonArrayTy, mk_range 0 0)],
           arr_states = [(AllocaInst 1 (ArrayTy 4), \<lparr>elem_map = [(0, mk_range 1 1)], default_r = mk_range 0 0\<rparr>)],
           reachable = True\<rparr> []))
     (AllocaInst 1 (ArrayTy 4)) = Some \<lparr>elem_map = [(0, mk_range 1 1)], default_r = mk_range 0 0\<rparr> \<and>
   map_of (val_ranges
       (transfer_inst [] (CallInst 9 False None [AllocaInst 1 (ArrayTy 4), AllocaInst 2 NonArrayTy])
          \<lparr>val_ranges = [(AllocaInst 2 NonArrayTy, mk_range 0 0)],
           arr_states = [(AllocaInst 1 (ArrayTy 4), \<lparr>elem_map = [(0, mk_range 1 1)], default_r = mk_range 0 0\<rparr>)],
           reachable = True\<rparr> []))
     (AllocaInst 2 NonArrayTy) = Some (mk_range 0 0) \<and>
   map_of (val_ranges
       (transfer_inst [] (CallInst 9 False (Some 0) [AllocaInst 1 (ArrayTy 4)])
          \<lparr>val_ranges = [(AllocaInst 1 (ArrayTy 4), mk_range 5 5)],
           arr_states = [(AllocaInst 1 (ArrayTy 4), \<lparr>elem_map = [], default_r = mk_range 0 0\<rparr>)],
           reachable = True\<rparr> []))
     (AllocaInst 1 (ArrayTy 4)) = Some (mk_range 5 5) \<and>
   mk_range 0 0 \<noteq> r_top \<and> mk_range 5 5 \<noteq> r_top \<and>
   \<lparr>elem_map = [(0, mk_range 1 1)], default_r = mk_range 0 0\<rparr> \<noteq> \<lparr>elem_map = [], default_r = r_top\<rparr>"
  by (simp add: transfer_inst_CallInst set_val_def set_arr_def clobber_arg_def get_base_ptr_def Let_def
      mk_range_def r_top_def to_int_def INT_MIN_def INT_MAX_def)

text \<open>
  Claim C3 as amended: for a call with a known callee, every pointer-typed argument whose
  base has an array store gets that store reset to default Top with no slots, and every
  pointer-typed argument whose base has none gets the base bound to Top. The result of
  every call, with or without a known callee, is bound to Top, and a call without a known
  callee changes nothing else.
\<close>

theorem transfer_call_clobbers:
  "(\<forall>arg \<in> set args. isPointerTy arg \<longrightarrow>
      (case map_of (arr_states st) (get_base_ptr arg) of
         Some a \<Rightarrow>
           map_of (arr_states (transfer_inst tab (CallInst n p (Some fn) args) st outs)) (get_base_ptr arg) =
             Some \<lparr>elem_map = [], default_r = r_top\<rparr>
       | None \<Rightarrow>
           map_of (val_ranges (transfer_inst tab (CallInst n p (Some fn) args) st outs)) (get_base_ptr arg) =
             Some r_top)) \<and>
   map_of (val_ranges (transfer_inst tab (CallInst n p callee args) st outs)) (CallInst n p callee args) =
     Some r_top \<and>
   transfer_inst tab (CallInst n p None args) st outs = set_val st (CallInst n p None args) r_top"
proof (intro conjI ballI impI)
  fix arg
  assume a: "arg \<in> set args" "isPointerTy arg"
  from foldl_clobber_args [OF a, of st]
  show "case map_of (arr_states st) (get_base_ptr arg) of
          Some a \<Rightarrow>
            map_of (arr_states (transfer_inst tab (CallInst n p (Some fn) args) st outs)) (get_base_ptr arg) =
              Some \<lparr>elem_map = [], default_r = r_top\<rparr>
        | None \<Rightarrow>
            map_of (val_ranges (transfer_inst tab (CallInst n p (Some fn) args) st outs)) (get_base_ptr arg) =
              Some r_top"
    by (auto simp: transfer_inst_CallInst set_val_def update_conv' split: option.splits)
next
  show "map_of (val_ranges (transfer_inst tab (CallInst n p callee args) st outs)) (CallInst n p callee args) =
     Some r_top"
    by (simp add: transfer_inst_CallInst set_val_def update_conv')
next
  show "transfer_inst tab (CallInst n p None args) st outs = set_val st (CallInst n p None args) r_top"
    by (simp add: transfer_inst_CallInst)
qed


theorem transfer_call_clobbers_witness:
  "isPointerTy (GetElementPtrInst 3 (AllocaInst 1 (ArrayTy 4)) [ConstantInt 0, ConstantInt 0]) \<and>
   isPointerTy (AllocaInst 2 NonArrayTy) \<and>
   map_of (arr_states
       (transfer_inst []
          (CallInst 9 False (Some 0)
             [GetElementPtrInst 3 (AllocaInst 1 (ArrayTy 4)) [ConstantInt 0, ConstantInt 0],
              AllocaInst 2 NonArrayTy, ConstantInt 7])
          \<lparr>val_ranges = [(AllocaInst 2 NonArrayTy, mk_range 0 0)],
           arr_states = [(AllocaInst 1 (ArrayTy 4), \<lparr>elem_map = [(0, mk_range 1 1)], default_r = mk_range 0 0\<rparr>)],
           reachable = True\<rparr> []))
     (AllocaInst 1 (ArrayTy 4)) = Some \<lparr>elem_map = [], default_r = r_top\<rparr> \<and>
   map_of (val_ranges
       (transfer_inst []
          (CallInst 9 False (Some 0)
             [GetElementPtrInst 3 (AllocaInst 1 (ArrayTy 4)) [ConstantInt 0, ConstantInt 0],
              AllocaInst 2 NonArrayTy, ConstantInt 7])
          \<lparr>val_ranges = [(AllocaInst 2 NonArrayTy, mk_range 0 0)],
           arr_states = [(AllocaInst 1 (ArrayTy 4), \<lparr>elem_map = [(0, mk_range 1 1)], default_r = mk_range 0 0\<rparr>)],
           reachable = True\<rparr> []))
     (AllocaInst 2 NonArrayTy) = Some r_top"
  using transfer_call_clobbers
    [where args = "[GetElementPtrInst 3 (AllocaInst 1 (ArrayTy 4)) [ConstantInt 0, ConstantInt 0],
          AllocaInst 2 NonArrayTy, ConstantInt 7]"
       and st = "\<lparr>val_ranges = [(AllocaInst 2 NonArrayTy, mk_range 0 0)],
          arr_states = [(AllocaInst 1 (ArrayTy 4), \<lparr>elem_map = [(0, mk_range 1 1)], default_r = mk_range 0 0\<rparr>)],
          reachable = True\<rparr>"
       and tab = "[]" and n = 9 and p = False and fn = 0 and outs = "[]" and callee = "Some 0"]
  by (simp add: get_base_ptr_def)


section \<open>Properties of the condition refiner\<close>

lemma match_cmp_const_rhs:
  assumes "map_of (val_ranges st) (compared_var lhs) \<noteq> None"
  shows "match_cmp pred lhs (ConstantInt k) st = Some (compared_var lhs, k, pred)"
  using assms
  by (cases lhs)
     (simp_all add: match_cmp_def compared_var_def dyn_cast_ConstantInt_def dyn_cast_LoadInst_def
        isa_Argument_def)

lemma refine_br_const_rhs:
  assumes "map_of (val_ranges st) (compared_var lhs) = Some r"
  shows "refine_br (CondBr (ICmpInst n pred lhs (ConstantInt k)) t f) succ st =
     (let refined = range_intersect r
            (filter_range (if succ = t then pred else getInversePredicate pred) k r);
          st' = set_val st (compared_var lhs) refined
      in if refined = r_bot then st'\<lparr>reachable := False\<rparr> else st')"
  using assms by (simp add: refine_br_def match_cmp_const_rhs Let_def)

lemma map_of_set_val: "map_of (val_ranges (set_val st x r)) x = Some r"
  by (simp add: set_val_def update_conv')

lemma intersect_0_10_lt_5: "range_intersect (mk_range 0 10) (mk_range INT_MIN 4) = mk_range 0 4"
  by (simp add: range_intersect_def mk_range_def to_int_def r_bot_def INT_MIN_def INT_MAX_def)

lemma intersect_0_10_ge_5: "range_intersect (mk_range 0 10) (mk_range 5 INT_MAX) = mk_range 5 10"
  by (simp add: range_intersect_def mk_range_def to_int_def r_bot_def INT_MIN_def INT_MAX_def)

text \<open>
  Claim C8: let the branch condition be the signed comparison \<open>lhs < k\<close> with a constant \<open>k\<close>
  and let the variable \<open>x\<close> of \<open>lhs\<close> be tracked with interval \<open>r\<close>. On the edge to \<open>succ\<close> the
  state maps \<open>x\<close> to the meet of \<open>r\<close> with the filter, where the filter belongs to the
  predicate itself on the true edge and to the inverted predicate on every other edge; the
  filter of \<open><\<close> is \<open>[MIN, k-1]\<close> (for \<open>k\<close> other than \<open>MIN\<close>) and that of the inverted
  predicate \<open>\<ge>\<close> is \<open>[k, MAX]\<close>. For \<open>r = [0,10]\<close> and \<open>k = 5\<close> the true edge gives \<open>[0,4]\<close>
  and the false edge \<open>[5,10]\<close>.
\<close>

theorem refine_br_slt:
  assumes "map_of (val_ranges st) (compared_var lhs) = Some r"
  shows "map_of (val_ranges (refine_br (CondBr (ICmpInst n ICMP_SLT lhs (ConstantInt k)) t f) succ st))
           (compared_var lhs) =
         Some (range_intersect r
                 (filter_range (if succ = t then ICMP_SLT else getInversePredicate ICMP_SLT) k r)) \<and>
         (k \<noteq> INT_MIN \<longrightarrow> filter_range ICMP_SLT k r = mk_range INT_MIN (k - 1)) \<and>
         filter_range (getInversePredicate ICMP_SLT) k r = mk_range k INT_MAX \<and>
         (r = mk_range 0 10 \<and> k = 5 \<longrightarrow>
            map_of (val_ranges (refine_br (CondBr (ICmpInst n ICMP_SLT lhs (ConstantInt k)) t f) t st))
              (compared_var lhs) = Some (mk_range 0 4) \<and>
            (succ \<noteq> t \<longrightarrow>
               map_of (val_ranges (refine_br (CondBr (ICmpInst n ICMP_SLT lhs (ConstantInt k)) t f) succ st))
                 (compared_var lhs) = Some (mk_range 5 10)))"
proof -
  have g: "map_of (val_ranges (refine_br (CondBr (ICmpInst n ICMP_SLT lhs (ConstantInt k)) t f) s st))
           (compared_var lhs) =
         Some (range_intersect r
                 (filter_range (if s = t then ICMP_SLT else getInversePredicate ICMP_SLT) k r))" for s
    by (simp add: refine_br_const_rhs [OF assms] Let_def map_of_set_val set_val_def update_conv')
  have lt: "filter_range ICMP_SLT k r = mk_range INT_MIN (k - 1)" if "k \<noteq> INT_MIN"
    using that by (simp add: filter_range_def)
  have ge: "filter_range (getInversePredicate ICMP_SLT) k r = mk_range k INT_MAX"
    by (simp add: filter_range_def)
  have five: "(5::int) \<noteq> INT_MIN" by (simp add: INT_MIN_def)
  have t_edge: "map_of (val_ranges (refine_br (CondBr (ICmpInst n ICMP_SLT lhs (ConstantInt k)) t f) t st))
              (compared_var lhs) = Some (mk_range 0 4)" if "r = mk_range 0 10" "k = 5"
    using g [of t] lt five that by (simp add: intersect_0_10_lt_5)
  have f_edge: "map_of (val_ranges (refine_br (CondBr (ICmpInst n ICMP_SLT lhs (ConstantInt k)) t f) succ st))
              (compared_var lhs) = Some (mk_range 5 10)" if "r = mk_range 0 10" "k = 5" "succ \<noteq> t"
    using g [of succ] ge that by (simp add: intersect_0_10_ge_5)
  show ?thesis
    using g [of succ] lt ge t_edge f_edge by blast
qed

theorem refine_br_slt_witness:
  "map_of (val_ranges \<lparr>val_ranges = [(AllocaInst 2 NonArrayTy, mk_range 0 10)], arr_states = [], reachable = True\<rparr>)
     (compared_var (LoadInst 6 False (AllocaInst 2 NonArrayTy))) = Some (mk_range 0 10) \<and>
   map_of (val_ranges
       (refine_br (CondBr (ICmpInst 7 ICMP_SLT (LoadInst 6 False (AllocaInst 2 NonArrayTy)) (ConstantInt 5)) 1 2) 1
          \<lparr>val_ranges = [(AllocaInst 2 NonArrayTy, mk_range 0 10)], arr_states = [], reachable = True\<rparr>))
     (AllocaInst 2 NonArrayTy) = Some (mk_range 0 4) \<and>
   map_of (val_ranges
       (refine_br (CondBr (ICmpInst 7 ICMP_SLT (LoadInst 6 False (AllocaInst 2 NonArrayTy)) (ConstantInt 5)) 1 2) 2
          \<lparr>val_ranges = [(AllocaInst 2 NonArrayTy, mk_range 0 10)], arr_states = [], reachable = True\<rparr>))
     (AllocaInst 2 NonArrayTy) = Some (mk_range 5 10)"
proof -
  have c: "compared_var (LoadInst 6 False (AllocaInst 2 NonArrayTy)) = AllocaInst 2 NonArrayTy"
    by (simp add: compared_var_def dyn_cast_LoadInst_def get_base_ptr_def)
  have h: "map_of (val_ranges \<lparr>val_ranges = [(AllocaInst 2 NonArrayTy, mk_range 0 10)], arr_states = [], reachable = True\<rparr>)
     (compared_var (LoadInst 6 False (AllocaInst 2 NonArrayTy))) = Some (mk_range 0 10)"
    by (simp add: c)
  from refine_br_slt [OF h, where k = 5 and n = 7 and t = 1 and f = 2 and succ = 2] h
  show ?thesis by (simp add: c intersect_0_10_lt_5 intersect_0_10_ge_5)
qed


section \<open>Properties of the pass\<close>

lemma needs_check_decision:
  assumes "0 < sz" "sz < 2147483648"
  shows "needs_check r sz =
     (r \<noteq> r_bot \<and> \<not> (r \<noteq> r_top \<and> 0 \<le> get_low r \<and> get_high r \<le> int sz - 1))"
proof -
  have "to_int (int sz) = int sz"
    using assms by (simp add: to_int_id is_i32_def INT_MIN_def INT_MAX_def)
  with assms show ?thesis
    by (auto simp: needs_check_def)
qed

lemma needs_check_sound:
  assumes "\<not> needs_check r sz" "r \<noteq> r_bot"
  shows "r \<noteq> r_top \<and> 0 \<le> get_low r \<and> get_high r \<le> int sz - 1"
proof -
  from assms have sz: "sz \<noteq> 0" and r: "r \<noteq> r_top" "0 \<le> get_low r" "get_high r < to_int (int sz)"
    by (auto simp: needs_check_def split: if_splits)
  have "to_int (int sz) \<le> int sz"
    unfolding to_int_def
    using zmod_le_nonneg_dividend [of "int sz + 2147483648" 4294967296] by simp
  with r sz show ?thesis by auto
qed

text \<open>
  Claim C4 does not hold of the code. In \<open>two_func\<close> both accesses are in the reachable entry
  block and have the index interval Top, so both need a guard. The loop over the accesses
  rewrites the function as it goes: the guard for \<open>%p\<close> splits the block, \<open>%q\<close> then lies in
  the new block \<open>cont.bb\<close>, for which the solver has no state, and it is reported as
  unreachable and left without a guard. Taken first, on the function as it was analysed,
  \<open>%q\<close> is given its guard.
\<close>

theorem second_access_left_unguarded:
  "diagnostics two_func =
     Some [CheckingIndex two_x, IndexRange r_top, FinalRange r_top, NeedsCheckMsg r_top 4,
           Instrumenting two_p, SkippedUnreachable two_q] \<and>
   (case solve two_func (init_solver two_func) of
      None \<Rightarrow> False
    | Some sv \<Rightarrow>
        reachable (state_of (in_state sv) 0) \<and>
        map_sum id errs (instrument_gep sv \<lparr>cur_func = two_func, errs = [], modified = False\<rparr> two_q) =
          Inr [CheckingIndex two_y, IndexRange r_top, FinalRange r_top, NeedsCheckMsg r_top 4,
               Instrumenting two_q]) \<and>
   needs_check r_top 4"
  by code_simp

text \<open>
  Claim C10: for a function whose name is not \<open>test\<close> the pass returns at once: all
  analyses are reported preserved, the function is unchanged and nothing is printed.
\<close>

theorem run_pass_other_function:
  "fname F \<noteq> ''test'' \<Longrightarrow>
   run_pass F = Some (Inr \<lparr>returned = PreservedAll, final_func = F, printed = []\<rparr>)"
  by (simp add: run_pass_def)

theorem run_pass_other_function_witness:
  "fname (two_func\<lparr>fname := ''main''\<rparr>) \<noteq> ''test'' \<and>
   run_pass (two_func\<lparr>fname := ''main''\<rparr>) =
     Some (Inr \<lparr>returned = PreservedAll, final_func = two_func\<lparr>fname := ''main''\<rparr>, printed = []\<rparr>)"
  using run_pass_other_function [of "two_func\<lparr>fname := ''main''\<rparr>"]
  by simp

subsection \<open>The fixpoint driver on \<open>osc_func\<close>\<close>

lemma solve_Some_reaches_empty:
  assumes "solve F sv = Some y"
  shows "\<exists>k. wk ((solver_step F ^^ k) sv) = []"
proof (rule solve.raw_induct [where P = "\<lambda>F sv y. \<exists>k. wk ((solver_step F ^^ k) sv) = []", OF _ assms])
  fix f F' sv' y'
  assume IH: "\<And>F sv y. f F sv = Some y \<Longrightarrow> \<exists>k. wk ((solver_step F ^^ k) sv) = []"
    and step: "(if wk sv' = [] then Some sv' else f F' (solver_step F' sv')) = Some y'"
  show "\<exists>k. wk ((solver_step F' ^^ k) sv') = []"
  proof (cases "wk sv' = []")
    case True
    then have "wk ((solver_step F' ^^ 0) sv') = []" by simp
    then show ?thesis by blast
  next
    case False
    with step have "f F' (solver_step F' sv') = Some y'" by simp
    from IH [OF this] obtain k where "wk ((solver_step F' ^^ k) (solver_step F' sv')) = []" ..
    then have "wk ((solver_step F' ^^ Suc k) sv') = []" by (simp add: funpow_swap1)
    then show ?thesis by blast
  qed
qed

text \<open>The steps of the driver on \<open>osc_func\<close>, evaluated for both orders of the predecessors of \<open>L\<close>.\<close>

lemma osc_init:
  "(solver_step (osc_func [0, 1]) ^^ 4) (init_solver (osc_func [0, 1])) = osc_s0"
  "(solver_step (osc_func [1, 0]) ^^ 4) (init_solver (osc_func [1, 0])) = osc_s0"
  by code_simp+

lemma osc_wk0:
  "wk (init_solver (osc_func [0, 1])) \<noteq> []"
  "wk (init_solver (osc_func [1, 0])) \<noteq> []"
  by code_simp+

lemma osc_wk1:
  "wk (solver_step (osc_func [0, 1]) (init_solver (osc_func [0, 1]))) \<noteq> []"
  "wk (solver_step (osc_func [1, 0]) (init_solver (osc_func [1, 0]))) \<noteq> []"
  by code_simp+

lemma osc_wk2:
  "wk ((solver_step (osc_func [0, 1]) ^^ 2) (init_solver (osc_func [0, 1]))) \<noteq> []"
  "wk ((solver_step (osc_func [1, 0]) ^^ 2) (init_solver (osc_func [1, 0]))) \<noteq> []"
  by code_simp+

lemma osc_wk3:
  "wk ((solver_step (osc_func [0, 1]) ^^ 3) (init_solver (osc_func [0, 1]))) \<noteq> []"
  "wk ((solver_step (osc_func [1, 0]) ^^ 3) (init_solver (osc_func [1, 0]))) \<noteq> []"
  by code_simp+

lemma osc_step02:
  "solver_step (osc_func [0, 1]) osc_s0 = osc_s2"
  "solver_step (osc_func [1, 0]) osc_s0 = osc_s2"
  by code_simp+

lemma osc_step12:
  "solver_step (osc_func [0, 1]) osc_s1 = osc_s2"
  "solver_step (osc_func [1, 0]) osc_s1 = osc_s2"
  by code_simp+

lemma osc_step23:
  "solver_step (osc_func [0, 1]) osc_s2 = osc_s3"
  "solver_step (osc_func [1, 0]) osc_s2 = osc_s3"
  by code_simp+

lemma osc_step31:
  "solver_step (osc_func [0, 1]) osc_s3 = osc_s1"
  "solver_step (osc_func [1, 0]) osc_s3 = osc_s1"
  by code_simp+

lemma osc_wk_cycle: "wk osc_s0 \<noteq> []" "wk osc_s1 \<noteq> []" "wk osc_s2 \<noteq> []" "wk osc_s3 \<noteq> []"
  by (simp_all add: osc_s0_def osc_s1_def osc_s2_def osc_s3_def osc_solver_def)

text \<open>
  A driver that takes \<open>osc_s0\<close> to \<open>osc_s2\<close> after four iterations with a non-empty queue and
  then moves around the cycle never empties its queue, and so never returns.
\<close>

lemma cycle_closed:
  assumes "solver_step F osc_s1 = osc_s2" "solver_step F osc_s2 = osc_s3" "solver_step F osc_s3 = osc_s1"
    and "s \<in> {osc_s1, osc_s2, osc_s3}"
  shows "(solver_step F ^^ k) s \<in> {osc_s1, osc_s2, osc_s3}"
proof (induction k)
  case 0
  from assms(4) show ?case by simp
next
  case (Suc k)
  then show ?case
    using assms(1-3) by auto
qed

lemma never_empty:
  assumes init: "(solver_step F ^^ 4) sv = osc_s0"
    and wk: "wk sv \<noteq> []" "wk (solver_step F sv) \<noteq> []"
      "wk ((solver_step F ^^ 2) sv) \<noteq> []" "wk ((solver_step F ^^ 3) sv) \<noteq> []"
    and steps: "solver_step F osc_s0 = osc_s2" "solver_step F osc_s1 = osc_s2"
      "solver_step F osc_s2 = osc_s3" "solver_step F osc_s3 = osc_s1"
  shows "wk ((solver_step F ^^ k) sv) \<noteq> []"
proof (cases "k < 4")
  case True
  then consider "k = 0" | "k = 1" | "k = 2" | "k = 3" by linarith
  then show ?thesis
    using wk by cases simp_all
next
  case False
  then obtain m where k: "k = m + 4" by (metis add.commute le_Suc_ex not_less)
  have at4: "(solver_step F ^^ k) sv = (solver_step F ^^ m) osc_s0"
    by (simp only: k funpow_add o_apply init)
  show ?thesis
  proof (cases m)
    case 0
    with at4 show ?thesis by (simp add: osc_wk_cycle)
  next
    case (Suc m')
    have "(solver_step F ^^ m) osc_s0 = (solver_step F ^^ m') osc_s2"
      by (simp only: Suc funpow_Suc_right o_apply steps(1))
    moreover have "(solver_step F ^^ m') osc_s2 \<in> {osc_s1, osc_s2, osc_s3}"
      by (rule cycle_closed [OF steps(2-4)]) simp
    ultimately show ?thesis
      using at4 osc_wk_cycle by auto
  qed
qed

lemma solve_None:
  assumes "\<And>k. wk ((solver_step F ^^ k) sv) \<noteq> []"
  shows "solve F sv = None"
proof (rule ccontr)
  assume "solve F sv \<noteq> None"
  then obtain y where "solve F sv = Some y" by auto
  from solve_Some_reaches_empty [OF this] assms show False by blast
qed

lemma osc_fname: "fname (osc_func ps) = ''test''"
  by (simp add: osc_func_def)

text \<open>
  Claim C9 does not hold of the code: on \<open>osc_func\<close>, a function of three blocks, the queue
  of the fixpoint driver never becomes empty, whichever way the predecessors of \<open>L\<close> are
  listed, and the pass does not return. The fact for \<open>%i\<close> at the head of the loop
  alternates between \<open>[0,0]\<close> and \<open>[0,MAX]\<close>: with \<open>[0,0]\<close> the load \<open>a[i]\<close> reads slot 0, which
  is \<open>[1,1]\<close>, and widening gives \<open>[0,MAX]\<close>; with \<open>[0,MAX]\<close> the load reads the default
  \<open>[0,0]\<close>, which is not an expansion of \<open>[0,MAX]\<close>, and the in-state, recomputed from the
  predecessors alone, falls back to \<open>[0,0]\<close>.
\<close>

theorem fixpoint_loop_diverges:
  "solve (osc_func [0, 1]) (init_solver (osc_func [0, 1])) = None \<and>
   solve (osc_func [1, 0]) (init_solver (osc_func [1, 0])) = None \<and>
   run_pass (osc_func [0, 1]) = None \<and> run_pass (osc_func [1, 0]) = None"
proof -
  have a: "solve (osc_func [0, 1]) (init_solver (osc_func [0, 1])) = None"
    by (rule solve_None)
       (rule never_empty [OF osc_init(1) osc_wk0(1) osc_wk1(1) osc_wk2(1) osc_wk3(1)
          osc_step02(1) osc_step12(1) osc_step23(1) osc_step31(1)])
  have b: "solve (osc_func [1, 0]) (init_solver (osc_func [1, 0])) = None"
    by (rule solve_None)
       (rule never_empty [OF osc_init(2) osc_wk0(2) osc_wk1(2) osc_wk2(2) osc_wk3(2)
          osc_step02(2) osc_step12(2) osc_step23(2) osc_step31(2)])
  from a b show ?thesis
    by (simp add: run_pass_def osc_fname)
qed

end
